theory Spec2Isabelle
  imports Complex_Main
begin

section \<open>Promises\<close>

text \<open>
  The errors a promise of this module is rejected with: \<open>TimedOut code\<close> and
  \<open>LoadFailed code\<close> are the two \<open>Error\<close> objects \<open>fetchFundEstimateFast\<close>
  creates (their messages are a fixed word followed by the fund code), \<open>Thrown\<close> is
  any other rejection reason, identified by its message.

  A settled promise either carries the value it was resolved with or the error it
  was rejected with. A promise that has not settled has no entry in the tables below.
\<close>

datatype error = Thrown string | TimedOut string | LoadFailed string

datatype 'r outcome = Resolved 'r | Rejected error

section \<open>Concurrency limiter (api/fundFast: \<open>withConcurrencyControl\<close>)\<close>

text \<open>
  The module-level variables \<open>activeRequests\<close> and \<open>requestQueue\<close>. A queue
  element is the \<open>execute\<close> closure of one submission; it is represented by the
  task \<open>'t\<close> it will run. \<open>promises\<close> logs, oldest first, how the promise
  returned by \<open>withConcurrencyControl\<close> was settled for each task (the calls of
  its \<open>resolve\<close> and \<open>reject\<close>).

  The record is extensible: a client of the limiter adds the state its tasks touch.
\<close>

definition MAX_CONCURRENT :: int where
  "MAX_CONCURRENT = 5"

record ('t, 'r) limiter =
  activeRequests :: int
  requestQueue :: "'t list"
  promises :: "('t \<times> 'r outcome) list"

text \<open>
  \<open>execute\<close> is an async function with one suspension point, \<open>await fn()\<close>.
  \<open>execute_start\<close> is the part that runs synchronously when the closure is called:
  the increment and the synchronous part of \<open>fn()\<close>, given as the state
  transformer \<open>fn t\<close>. \<open>execute_resume\<close> is the part that runs when the awaited
  promise has settled with \<open>out\<close>: \<open>resolve(result)\<close> or \<open>reject(err)\<close>, and the
  \<open>finally\<close> block.
\<close>

definition execute_start ::
  "('t \<Rightarrow> ('t, 'r, 'a) limiter_scheme \<Rightarrow> ('t, 'r, 'a) limiter_scheme) \<Rightarrow> 't \<Rightarrow>
   ('t, 'r, 'a) limiter_scheme \<Rightarrow> ('t, 'r, 'a) limiter_scheme" where
  "execute_start fn t s = fn t (s\<lparr>activeRequests := activeRequests s + 1\<rparr>)"

definition executeNext ::
  "('t \<Rightarrow> ('t, 'r, 'a) limiter_scheme \<Rightarrow> ('t, 'r, 'a) limiter_scheme) \<Rightarrow>
   ('t, 'r, 'a) limiter_scheme \<Rightarrow> ('t, 'r, 'a) limiter_scheme" where
  "executeNext fn s =
     (if length (requestQueue s) > 0 \<and> activeRequests s < MAX_CONCURRENT then
        (case requestQueue s of
           [] \<Rightarrow> s
         | next # rest \<Rightarrow> execute_start fn next (s\<lparr>requestQueue := rest\<rparr>))
      else s)"

definition execute_resume ::
  "('t \<Rightarrow> ('t, 'r, 'a) limiter_scheme \<Rightarrow> ('t, 'r, 'a) limiter_scheme) \<Rightarrow> 't \<Rightarrow>
   'r outcome \<Rightarrow> ('t, 'r, 'a) limiter_scheme \<Rightarrow> ('t, 'r, 'a) limiter_scheme" where
  "execute_resume fn t out s =
     executeNext fn
       (s\<lparr>promises := promises s @ [(t, out)],
          activeRequests := activeRequests s - 1\<rparr>)"

definition withConcurrencyControl ::
  "('t \<Rightarrow> ('t, 'r, 'a) limiter_scheme \<Rightarrow> ('t, 'r, 'a) limiter_scheme) \<Rightarrow> 't \<Rightarrow>
   ('t, 'r, 'a) limiter_scheme \<Rightarrow> ('t, 'r, 'a) limiter_scheme" where
  "withConcurrencyControl fn t s =
     (if activeRequests s < MAX_CONCURRENT then execute_start fn t s
      else s\<lparr>requestQueue := requestQueue s @ [t]\<rparr>)"

subsection \<open>The limiter driven by arbitrary tasks\<close>

text \<open>
  A task is an opaque asynchronous operation: calling it returns a promise that the
  environment settles later, with success or with failure. The bookkeeping fields
  record what the event loop holds: \<open>running\<close> are the tasks whose \<open>fn()\<close> has been
  called and whose promise is still pending (the suspended \<open>execute\<close> bodies),
  \<open>started\<close> is the order in which \<open>fn()\<close> was called and \<open>submitted\<close> the order
  in which \<open>withConcurrencyControl\<close> was called. The synchronous part of a task does
  not touch the limiter's variables. A task that throws before it returns a promise is
  a task whose failure follows its start at once: \<open>execute\<close> then runs its \<open>catch\<close>
  and \<open>finally\<close> blocks in the same turn, which is the event \<open>Settle\<close> right after
  the start.
\<close>

record ('t, 'r) tasks = "('t, 'r) limiter" +
  running :: "'t list"
  started :: "'t list"
  submitted :: "'t list"

definition call_task :: "'t \<Rightarrow> ('t, 'r) tasks \<Rightarrow> ('t, 'r) tasks" where
  "call_task t s = s\<lparr>running := running s @ [t], started := started s @ [t]\<rparr>"

datatype ('t, 'r) task_event = Submit 't | Settle 't "'r outcome"

text \<open>
  \<open>Submit t\<close> is a call \<open>withConcurrencyControl(t)\<close>. \<open>Settle t out\<close> is the
  promise of the running task \<open>t\<close> settling; a task that is not running has no
  pending promise, so the event cannot occur and is skipped.
\<close>

fun task_step :: "('t, 'r) tasks \<Rightarrow> ('t, 'r) task_event \<Rightarrow> ('t, 'r) tasks" where
  "task_step s (Submit t) =
     withConcurrencyControl call_task t (s\<lparr>submitted := submitted s @ [t]\<rparr>)"
| "task_step s (Settle t out) =
     (if t \<in> set (running s)
      then execute_resume call_task t out (s\<lparr>running := remove1 t (running s)\<rparr>)
      else s)"

definition tasks_init :: "('t, 'r) tasks" where
  "tasks_init =
     \<lparr>activeRequests = 0, requestQueue = [], promises = [],
      running = [], started = [], submitted = []\<rparr>"

definition task_run :: "('t, 'r) task_event list \<Rightarrow> ('t, 'r) tasks" where
  "task_run es = foldl task_step tasks_init es"

text \<open>An example run: seven submissions in a row.\<close>

definition seven :: "(nat, unit) task_event list" where
  "seven = map Submit [11, 12, 13, 14, 15, 16, 17]"

text \<open>
  The invariant of the limiter: the counter is the number of running tasks, it is at
  most the bound, tasks wait only while the limiter is full, and tasks are started
  in the order of submission.
\<close>

definition limiter_inv :: "('t, 'r) tasks \<Rightarrow> bool" where
  "limiter_inv s \<longleftrightarrow>
     activeRequests s = int (length (running s)) \<and>
     activeRequests s \<le> MAX_CONCURRENT \<and>
     (requestQueue s = [] \<or> activeRequests s = MAX_CONCURRENT) \<and>
     submitted s = started s @ requestQueue s"

lemma limiter_inv_init: "limiter_inv tasks_init"
  by (simp add: limiter_inv_def tasks_init_def MAX_CONCURRENT_def)

lemma limiter_inv_submit:
  assumes "limiter_inv s"
  shows "limiter_inv (task_step s (Submit t))"
  using assms
  by (auto simp: limiter_inv_def withConcurrencyControl_def execute_start_def
      call_task_def MAX_CONCURRENT_def)

lemma int_length_remove1:
  "x \<in> set xs \<Longrightarrow> int (length (remove1 x xs)) = int (length xs) - 1"
  by (induction xs) auto

lemma limiter_inv_settle:
  assumes "limiter_inv s"
  shows "limiter_inv (task_step s (Settle t out))"
proof (cases "t \<in> set (running s)")
  case False
  then show ?thesis using assms by simp
next
  case True
  then have pos: "0 < length (running s)"
    by auto
  from True have len: "int (length (remove1 t (running s))) = int (length (running s)) - 1"
    by (rule int_length_remove1)
  show ?thesis
  proof (cases "requestQueue s")
    case Nil
    then show ?thesis
      using assms True len pos
      by (auto simp: limiter_inv_def execute_resume_def executeNext_def
          MAX_CONCURRENT_def)
  next
    case (Cons q qs)
    then show ?thesis
      using assms True len pos
      by (auto simp: limiter_inv_def execute_resume_def executeNext_def
          execute_start_def call_task_def MAX_CONCURRENT_def)
  qed
qed

lemma limiter_inv_step: "limiter_inv s \<Longrightarrow> limiter_inv (task_step s e)"
  by (cases e) (simp_all only: limiter_inv_submit limiter_inv_settle)

lemma limiter_inv_foldl: "limiter_inv s \<Longrightarrow> limiter_inv (foldl task_step s es)"
  by (induction es arbitrary: s) (simp_all add: limiter_inv_step)

lemma limiter_inv_run: "limiter_inv (task_run es)"
  unfolding task_run_def by (rule limiter_inv_foldl [OF limiter_inv_init])

text \<open>
  C1. After every sequence of submissions and completions (hence at every point of
  every interleaving, each prefix being such a sequence) the number of tasks that
  have been started and have not completed is at most \<open>MAX_CONCURRENT\<close> = 5, and the
  counter \<open>activeRequests\<close> is exactly that number.
\<close>

theorem limiter_bound:
  "int (length (running (task_run es))) \<le> MAX_CONCURRENT \<and>
   MAX_CONCURRENT = 5 \<and>
   activeRequests (task_run es) = int (length (running (task_run es)))"
  using limiter_inv_run [of es] by (simp add: limiter_inv_def MAX_CONCURRENT_def)

theorem limiter_bound_witness:
  "running (task_run (map Submit [1, 2, 3, 4, 5, 6, 7 :: nat] :: (nat, unit) task_event list))
     = [1, 2, 3, 4, 5] \<and>
   int (length (running (task_run
     (map Submit [1, 2, 3, 4, 5, 6, 7 :: nat] :: (nat, unit) task_event list)))) \<le> MAX_CONCURRENT"
  using limiter_bound [of "map Submit [1, 2, 3, 4, 5, 6, 7 :: nat] :: (nat, unit) task_event list"]
  by (simp add: task_run_def tasks_init_def withConcurrencyControl_def execute_start_def
      call_task_def MAX_CONCURRENT_def)

text \<open>
  C6. Admission is first in, first out: in every reachable state the submitted tasks
  are the started ones followed by the queued ones, in order, and tasks wait only
  while the limiter is full. A submission to a full limiter is appended to the queue
  and not started. When a running task \<open>t\<close> settles, with any outcome \<open>out\<close>
  (success or failure), the oldest queued task, if any, is started in the same step
  and the queue loses exactly that task; the only promise settled is the one of \<open>t\<close>
  itself, and a failure of \<open>t\<close> leaves the limiter in the state a success would,
  up to the outcome logged for \<open>t\<close>.
\<close>

theorem limiter_fifo:
  "submitted (task_run es) = started (task_run es) @ requestQueue (task_run es) \<and>
   (requestQueue (task_run es) = [] \<or> activeRequests (task_run es) = MAX_CONCURRENT) \<and>
   (activeRequests (task_run es) < MAX_CONCURRENT \<longrightarrow>
      running (task_step (task_run es) (Submit t)) = running (task_run es) @ [t] \<and>
      requestQueue (task_step (task_run es) (Submit t)) = []) \<and>
   (\<not> activeRequests (task_run es) < MAX_CONCURRENT \<longrightarrow>
      running (task_step (task_run es) (Submit t)) = running (task_run es) \<and>
      requestQueue (task_step (task_run es) (Submit t)) = requestQueue (task_run es) @ [t]) \<and>
   (t \<in> set (running (task_run es)) \<longrightarrow>
      promises (task_step (task_run es) (Settle t out)) = promises (task_run es) @ [(t, out)] \<and>
      (case requestQueue (task_run es) of
         [] \<Rightarrow>
           running (task_step (task_run es) (Settle t out)) = remove1 t (running (task_run es)) \<and>
           requestQueue (task_step (task_run es) (Settle t out)) = []
       | q # qs \<Rightarrow>
           running (task_step (task_run es) (Settle t out)) =
             remove1 t (running (task_run es)) @ [q] \<and>
           started (task_step (task_run es) (Settle t out)) = started (task_run es) @ [q] \<and>
           requestQueue (task_step (task_run es) (Settle t out)) = qs) \<and>
      task_step (task_run es) (Settle t (Rejected err)) =
        (task_step (task_run es) (Settle t (Resolved v)))
          \<lparr>promises := promises (task_run es) @ [(t, Rejected err)]\<rparr>)"
proof -
  define s where "s = task_run es"
  have inv: "limiter_inv s"
    unfolding s_def by (rule limiter_inv_run)
  have a: "submitted s = started s @ requestQueue s"
    and b: "requestQueue s = [] \<or> activeRequests s = MAX_CONCURRENT"
    and le: "activeRequests s \<le> MAX_CONCURRENT"
    and cnt: "activeRequests s = int (length (running s))"
    using inv by (auto simp: limiter_inv_def)
  have c: "activeRequests s < MAX_CONCURRENT \<longrightarrow>
      running (task_step s (Submit t)) = running s @ [t] \<and>
      requestQueue (task_step s (Submit t)) = []"
    using b by (auto simp: withConcurrencyControl_def execute_start_def call_task_def)
  have d: "\<not> activeRequests s < MAX_CONCURRENT \<longrightarrow>
      running (task_step s (Submit t)) = running s \<and>
      requestQueue (task_step s (Submit t)) = requestQueue s @ [t]"
    by (simp add: withConcurrencyControl_def)
  have e: "t \<in> set (running s) \<longrightarrow>
      promises (task_step s (Settle t out)) = promises s @ [(t, out)] \<and>
      (case requestQueue s of
         [] \<Rightarrow>
           running (task_step s (Settle t out)) = remove1 t (running s) \<and>
           requestQueue (task_step s (Settle t out)) = []
       | q # qs \<Rightarrow>
           running (task_step s (Settle t out)) = remove1 t (running s) @ [q] \<and>
           started (task_step s (Settle t out)) = started s @ [q] \<and>
           requestQueue (task_step s (Settle t out)) = qs) \<and>
      task_step s (Settle t (Rejected err)) =
        (task_step s (Settle t (Resolved v)))\<lparr>promises := promises s @ [(t, Rejected err)]\<rparr>"
    using le
    by (auto simp: execute_resume_def executeNext_def execute_start_def call_task_def
        split: list.splits)
  show ?thesis
    using a b c d e unfolding s_def by blast
qed

lemma task_run_seven:
  "task_run seven =
    \<lparr>activeRequests = 5, requestQueue = [16, 17], promises = [],
      running = [11, 12, 13, 14, 15], started = [11, 12, 13, 14, 15],
      submitted = [11, 12, 13, 14, 15, 16, 17]\<rparr>"
  by (simp add: seven_def task_run_def tasks_init_def withConcurrencyControl_def
      execute_start_def call_task_def MAX_CONCURRENT_def)

theorem limiter_fifo_witness:
  "11 \<in> set (running (task_run seven)) \<and>
   requestQueue (task_run seven) = [16, 17] \<and>
   \<not> activeRequests (task_run seven) < MAX_CONCURRENT \<and>
   running (task_step (task_run seven) (Settle 11 (Rejected (Thrown ''x'')))) = [12, 13, 14, 15, 16] \<and>
   started (task_step (task_run seven) (Settle 11 (Rejected (Thrown ''x'')))) = [11, 12, 13, 14, 15, 16] \<and>
   requestQueue (task_step (task_run seven) (Settle 11 (Rejected (Thrown ''x'')))) = [17] \<and>
   promises (task_step (task_run seven) (Settle 11 (Rejected (Thrown ''x'')))) = [(11, Rejected (Thrown ''x''))] \<and>
   requestQueue (task_step (task_run seven) (Submit 11)) = [16, 17, 11]"
  using limiter_fifo [where es = seven and t = 11 and out = "Rejected (Thrown ''x'')"
      and err = "Thrown ''y''" and v = "()"]
  by (simp add: task_run_seven MAX_CONCURRENT_def del: task_step.simps)

section \<open>Cache\<close>

text \<open>
  Modelled from the spec: the \<open>cache\<close> object of the module \<open>./cache\<close>, which is
  imported by api/fundFast and is not among the sources. The spec's contract (4.1) is
  \<open>get(key)\<close>, \<open>set(key, value, ttlMillis)\<close>, \<open>delete(key)\<close>, \<open>clear()\<close>, with
  expiry evaluated at read time: a read after expiry is a miss and removes the entry.
  An entry is a value with its expiry timestamp (milliseconds); \<open>now\<close> is the clock
  reading \<open>Date.now()\<close> at the call.
\<close>

type_synonym 'v cache = "string \<rightharpoonup> ('v \<times> int)"

definition cache_get :: "int \<Rightarrow> string \<Rightarrow> 'v cache \<Rightarrow> 'v option \<times> 'v cache" where
  "cache_get now key c =
     (case c key of
        None \<Rightarrow> (None, c)
      | Some (v, expiry) \<Rightarrow> if expiry < now then (None, c(key := None)) else (Some v, c))"

definition cache_set :: "int \<Rightarrow> string \<Rightarrow> 'v \<Rightarrow> int \<Rightarrow> 'v cache \<Rightarrow> 'v cache" where
  "cache_set now key v ttl c = c(key \<mapsto> (v, now + ttl))"

definition cache_delete :: "string \<Rightarrow> 'v cache \<Rightarrow> 'v cache" where
  "cache_delete key c = c(key := None)"

definition cache_clear :: "'v cache \<Rightarrow> 'v cache" where
  "cache_clear c = Map.empty"

subsection \<open>Cache keys\<close>

text \<open>
  A template literal renders a day count in decimal: \<open>num_str\<close> is the conversion of
  a non-negative integer to its decimal digits.
\<close>

fun num_str :: "nat \<Rightarrow> string" where
  "num_str n =
     (if n < 10 then [''0123456789'' ! n]
      else num_str (n div 10) @ [''0123456789'' ! (n mod 10)])"

declare num_str.simps [simp del]

text \<open>
  The keys the fetchers build: \<open>estimate_${code}\<close> (\<open>fetchFundEstimateFast\<close>),
  \<open>netvalue_${code}_${days}\<close> (\<open>fetchNetValueHistoryFast\<close>),
  \<open>kline_${code}_${days}\<close> (\<open>fetchSimpleKLineData\<close>) and \<open>period_${code}\<close>
  (\<open>calculatePeriodReturns\<close>).
\<close>

definition estimate_key :: "string \<Rightarrow> string" where
  "estimate_key code = ''estimate_'' @ code"

definition netvalue_key :: "string \<Rightarrow> nat \<Rightarrow> string" where
  "netvalue_key code days = ''netvalue_'' @ code @ ''_'' @ num_str days"

definition kline_key :: "string \<Rightarrow> nat \<Rightarrow> string" where
  "kline_key code days = ''kline_'' @ code @ ''_'' @ num_str days"

definition period_key :: "string \<Rightarrow> string" where
  "period_key code = ''period_'' @ code"

subsection \<open>\<open>clearFundCache\<close>\<close>

text \<open>
  The two nested \<open>forEach\<close> loops: for each prefix, the six keys with a day count
  are deleted, then the key without one.
\<close>

definition clearFundCache :: "string \<Rightarrow> 'v cache \<Rightarrow> 'v cache" where
  "clearFundCache code c =
     foldl (\<lambda>c prefix.
        cache_delete (prefix @ ''_'' @ code)
          (foldl (\<lambda>c days. cache_delete (prefix @ ''_'' @ code @ ''_'' @ num_str days) c)
             c [30, 60, 90, 180, 365, 400]))
       c [''estimate'', ''netvalue'', ''kline'', ''period'']"

lemma cache_delete_apply: "cache_delete key c k = (if k = key then None else c k)"
  by (simp add: cache_delete_def)

lemma foldl_cache_delete:
  "foldl (\<lambda>c d. cache_delete (f d) c) c ds k = (if k \<in> f ` set ds then None else c k)"
  by (induction ds arbitrary: c) (auto simp: cache_delete_def)

lemma foldl_cache_delete_nested:
  "foldl (\<lambda>c p. cache_delete (g p) (foldl (\<lambda>c d. cache_delete (f p d) c) c ds)) c ps k =
     (if k \<in> g ` set ps \<or> (\<exists>p \<in> set ps. k \<in> f p ` set ds) then None else c k)"
proof (induction ps arbitrary: c)
  case Nil
  show ?case by simp
next
  case (Cons p ps)
  let ?inner = "\<lambda>p c. foldl (\<lambda>c d. cache_delete (f p d) c) c ds"
  let ?step = "\<lambda>c p. cache_delete (g p) (?inner p c)"
  have "foldl ?step c (p # ps) k = foldl ?step (cache_delete (g p) (?inner p c)) ps k"
    by simp
  also have "\<dots> = (if k \<in> g ` set ps \<or> (\<exists>p \<in> set ps. k \<in> f p ` set ds) then None
      else cache_delete (g p) (?inner p c) k)"
    by (rule Cons.IH)
  also have "cache_delete (g p) (?inner p c) k =
      (if k = g p \<or> k \<in> f p ` set ds then None else c k)"
    by (simp add: cache_delete_apply foldl_cache_delete)
  finally show ?case
    by auto
qed

lemma clearFundCache_apply:
  "clearFundCache code c k =
     (if k \<in> (\<lambda>prefix. prefix @ ''_'' @ code) ` set [''estimate'', ''netvalue'', ''kline'', ''period''] \<or>
         (\<exists>prefix \<in> set [''estimate'', ''netvalue'', ''kline'', ''period''].
            k \<in> (\<lambda>days. prefix @ ''_'' @ code @ ''_'' @ num_str days) ` set [30, 60, 90, 180, 365, 400])
      then None else c k)"
  unfolding clearFundCache_def by (rule foldl_cache_delete_nested)

text \<open>
  Two keys that agree are made of the same prefix and the same code, when neither
  prefix nor code contains the separator.
\<close>

lemma sep_split:
  assumes "CHR ''_'' \<notin> set a" "CHR ''_'' \<notin> set b"
    and "x = [] \<or> hd x = CHR ''_''" "y = [] \<or> hd y = CHR ''_''"
    and "a @ x = b @ y"
  shows "a = b \<and> x = y"
  using assms
proof (induction a arbitrary: b)
  case Nil
  then show ?case by (cases b) auto
next
  case (Cons c a)
  then show ?case by (cases b) auto
qed

lemma key_neq:
  assumes "CHR ''_'' \<notin> set p" "CHR ''_'' \<notin> set p'" "CHR ''_'' \<notin> set c" "CHR ''_'' \<notin> set c'"
    and "x = [] \<or> hd x = CHR ''_''" "y = [] \<or> hd y = CHR ''_''"
    and "c \<noteq> c'"
  shows "p @ ''_'' @ c @ x \<noteq> p' @ ''_'' @ c' @ y"
proof
  assume eq: "p @ ''_'' @ c @ x = p' @ ''_'' @ c' @ y"
  have "p = p' \<and> ''_'' @ c @ x = ''_'' @ c' @ y"
    using assms(1,2) eq by (intro sep_split) auto
  then have "c @ x = c' @ y" by simp
  with assms(3-6) have "c = c'"
    using sep_split by blast
  with assms(7) show False by simp
qed

lemma other_code_survives:
  assumes "code' \<noteq> code" "CHR ''_'' \<notin> set code" "CHR ''_'' \<notin> set code'"
    and "prefix' \<in> {''estimate'', ''netvalue'', ''kline'', ''period''}"
    and "k = prefix' @ ''_'' @ code' @ x" "x = [] \<or> hd x = CHR ''_''"
  shows "clearFundCache code c k = c k"
proof -
  define ps where "ps = [''estimate'', ''netvalue'', ''kline'', ''period'']"
  define ds :: "nat list" where "ds = [30, 60, 90, 180, 365, 400]"
  have free: "CHR ''_'' \<notin> set p" if "p \<in> set ps" for p
    using that by (auto simp: ps_def)
  have "prefix' \<in> set ps"
    using assms(4) by (simp add: ps_def)
  then have free': "CHR ''_'' \<notin> set prefix'"
    by (rule free)
  have ne: "k \<noteq> p @ ''_'' @ code @ y" if "p \<in> set ps" "y = [] \<or> hd y = CHR ''_''" for p y
    unfolding assms(5)
    by (rule key_neq [OF free' free [OF that(1)] assms(3) assms(2) assms(6) that(2) assms(1)])
  have a: "k \<notin> (\<lambda>prefix. prefix @ ''_'' @ code) ` set ps"
    using ne [of _ "[]"] by auto
  have b: "\<not> (\<exists>prefix \<in> set ps. k \<in> (\<lambda>days. prefix @ ''_'' @ code @ ''_'' @ num_str days) ` set ds)"
    using ne [of _ "''_'' @ num_str d" for d] by auto
  show ?thesis
    using a b unfolding clearFundCache_apply ps_def ds_def by (simp only: if_False simp_thms)
qed

lemma clearFundCache_unlisted:
  assumes "\<forall>prefix \<in> {''estimate'', ''netvalue'', ''kline'', ''period''}.
       k \<noteq> prefix @ ''_'' @ code \<and>
       (\<forall>days \<in> {30, 60, 90, 180, 365, 400}. k \<noteq> prefix @ ''_'' @ code @ ''_'' @ num_str days)"
  shows "clearFundCache code c k = c k"
  using assms unfolding clearFundCache_apply by auto

text \<open>
  C10. \<open>clearFundCache code\<close> leaves every entry unchanged whose key is not one of
  the keys it builds, \<open>prefix_code\<close> or \<open>prefix_code_days\<close> with \<open>prefix\<close> among
  estimate, netvalue, kline, period and \<open>days\<close> among 30, 60, 90, 180, 365, 400. In
  particular the entries of another fund code survive: a key of one of these forms
  built from a different code is not among them (fund codes are digit strings; what
  is used is that neither code contains the separator \<open>_\<close>).
\<close>

theorem clearFundCache_frame:
  "((\<forall>prefix \<in> {''estimate'', ''netvalue'', ''kline'', ''period''}.
       k \<noteq> prefix @ ''_'' @ code \<and>
       (\<forall>days \<in> {30, 60, 90, 180, 365, 400}. k \<noteq> prefix @ ''_'' @ code @ ''_'' @ num_str days))
     \<longrightarrow> clearFundCache code c k = c k) \<and>
   (code' \<noteq> code \<and> CHR ''_'' \<notin> set code \<and> CHR ''_'' \<notin> set code' \<and>
    prefix' \<in> {''estimate'', ''netvalue'', ''kline'', ''period''}
     \<longrightarrow> clearFundCache code c (prefix' @ ''_'' @ code') = c (prefix' @ ''_'' @ code') \<and>
         clearFundCache code c (prefix' @ ''_'' @ code' @ ''_'' @ num_str days') =
           c (prefix' @ ''_'' @ code' @ ''_'' @ num_str days'))"
proof (intro conjI impI)
  assume "\<forall>prefix \<in> {''estimate'', ''netvalue'', ''kline'', ''period''}.
       k \<noteq> prefix @ ''_'' @ code \<and>
       (\<forall>days \<in> {30, 60, 90, 180, 365, 400}. k \<noteq> prefix @ ''_'' @ code @ ''_'' @ num_str days)"
  then show "clearFundCache code c k = c k"
    by (rule clearFundCache_unlisted)
next
  assume h: "code' \<noteq> code \<and> CHR ''_'' \<notin> set code \<and> CHR ''_'' \<notin> set code' \<and>
    prefix' \<in> {''estimate'', ''netvalue'', ''kline'', ''period''}"
  show "clearFundCache code c (prefix' @ ''_'' @ code') = c (prefix' @ ''_'' @ code')"
    using h other_code_survives [of code' code prefix' "prefix' @ ''_'' @ code'" "[]" c]
    by simp
next
  assume h: "code' \<noteq> code \<and> CHR ''_'' \<notin> set code \<and> CHR ''_'' \<notin> set code' \<and>
    prefix' \<in> {''estimate'', ''netvalue'', ''kline'', ''period''}"
  show "clearFundCache code c (prefix' @ ''_'' @ code' @ ''_'' @ num_str days') =
           c (prefix' @ ''_'' @ code' @ ''_'' @ num_str days')"
    using h other_code_survives [of code' code prefix' "prefix' @ ''_'' @ code' @ ''_'' @ num_str days'"
        "''_'' @ num_str days'" c]
    by simp
qed


lemma num_str_examples:
  "num_str 7 = ''7''" "num_str 30 = ''30''" "num_str 60 = ''60''" "num_str 90 = ''90''"
  "num_str 180 = ''180''" "num_str 365 = ''365''" "num_str 400 = ''400''"
  by (simp_all add: num_str.simps)

theorem clearFundCache_frame_witness:
  "clearFundCache ''000001''
     [''netvalue_000002_30'' \<mapsto> (5::nat, 1000), ''netvalue_000001_30'' \<mapsto> (4, 1000)]
     ''netvalue_000002_30'' = Some (5, 1000) \<and>
   clearFundCache ''000001''
     [''netvalue_000002_30'' \<mapsto> (5::nat, 1000), ''netvalue_000001_30'' \<mapsto> (4, 1000)]
     ''netvalue_000001_30'' = None"
  using clearFundCache_frame [where code = "''000001''" and code' = "''000002''"
      and prefix' = "''netvalue''" and days' = 30 and k = "''netvalue_000002_30''"
      and c = "[''netvalue_000002_30'' \<mapsto> (5::nat, 1000), ''netvalue_000001_30'' \<mapsto> (4, 1000)]"]
  by (simp add: num_str_examples clearFundCache_apply)

lemma num_str_nonempty: "num_str n \<noteq> []"
  by (subst num_str.simps) simp

lemma digit_inj:
  assumes "a < 10" "b < 10" "''0123456789'' ! a = ''0123456789'' ! b"
  shows "a = b"
proof -
  have a: "a \<in> {0, 1, 2, 3, 4, 5, 6, 7, 8, 9}" and b: "b \<in> {0, 1, 2, 3, 4, 5, 6, 7, 8, 9}"
    using assms(1,2) by auto
  show ?thesis
    using a b assms(3) by (elim insertE emptyE) simp_all
qed

lemma num_str_inj: "num_str n = num_str m \<Longrightarrow> n = m"
proof (induction n arbitrary: m rule: num_str.induct)
  case (1 n)
  show ?case
  proof (cases "n < 10")
    case True
    show ?thesis
    proof (cases "m < 10")
      case m: True
      with True "1.prems" show ?thesis
        by (simp add: num_str.simps [of n] num_str.simps [of m] digit_inj)
    next
      case False
      with True "1.prems" num_str_nonempty [of "m div 10"] show ?thesis
        by (simp add: num_str.simps [of n] num_str.simps [of m])
    qed
  next
    case False
    show ?thesis
    proof (cases "m < 10")
      case True
      with False "1.prems" num_str_nonempty [of "n div 10"] show ?thesis
        by (simp add: num_str.simps [of n] num_str.simps [of m])
    next
      case m: False
      with False "1.prems" have eq: "num_str (n div 10) = num_str (m div 10)"
        and d: "''0123456789'' ! (n mod 10) = ''0123456789'' ! (m mod 10)"
        by (simp_all add: num_str.simps [of n] num_str.simps [of m])
      from "1.IH" [OF False eq] have "n div 10 = m div 10" .
      moreover from d have "n mod 10 = m mod 10"
        by (intro digit_inj) simp_all
      ultimately show ?thesis
        by (metis div_mult_mod_eq)
    qed
  qed
qed

text \<open>
  \<open>num_str\<close> is injective, so for every day count outside the list the history
  entry and the kline entry of the code survive \<open>clearFundCache\<close>.
\<close>

lemma clearFundCache_misses:
  assumes "n \<notin> {30, 60, 90, 180, 365, 400}"
  shows "clearFundCache fc c (netvalue_key fc n) = c (netvalue_key fc n)"
    and "clearFundCache fc c (kline_key fc n) = c (kline_key fc n)"
  using assms
  by (auto simp: clearFundCache_apply netvalue_key_def kline_key_def dest: num_str_inj)

text \<open>
  C7. The claim is that no entry of the code survives under any day count. The code
  deletes six day counts only. Evaluated on a cache that holds the history of fund
  000001 for 7 days (the key \<open>fetchNetValueHistoryFast(code, 7)\<close> writes), the entry
  is still there after \<open>clearFundCache\<close>; the entry for 30 days is gone.
\<close>

theorem clearFundCache_other_days:
  "clearFundCache ''000001'' [netvalue_key ''000001'' 7 \<mapsto> (h, 1000)]
     (netvalue_key ''000001'' 7) = Some (h, 1000) \<and>
   fst (cache_get 1 (netvalue_key ''000001'' 7)
     (clearFundCache ''000001'' (cache_set 0 (netvalue_key ''000001'' 7) h 1000 Map.empty)))
     = Some h \<and>
   clearFundCache ''000001'' [netvalue_key ''000001'' 30 \<mapsto> (h, 1000)]
     (netvalue_key ''000001'' 30) = None"
  by (simp add: clearFundCache_apply netvalue_key_def num_str_examples cache_get_def
      cache_set_def)

section \<open>Estimate fetch over JSONP (api/fundFast: \<open>fetchFundEstimateFast\<close>)\<close>

text \<open>
  The object a response carries. The handler reads only \<open>fundcode\<close>, which may be
  absent (\<open>None\<close> is \<open>undefined\<close>); \<open>details\<close> stands for the remaining fields
  of the type \<open>FundEstimate\<close>, which is declared outside the sources.
\<close>

record 'e FundEstimate =
  fundcode :: "string option"
  details :: 'e

text \<open>
  One invocation of \<open>fetchFundEstimateFast\<close> that goes to the network. The closures
  it creates (\<open>execute\<close>, the \<open>resolve\<close> and \<open>reject\<close> stored in the pending
  record, the timeout callback, \<open>onerror\<close>) capture the code and the value
  \<open>persisted\<close> read at the start of the invocation; \<open>cid\<close> identifies the
  invocation and with it the promise it returned and its timer handle.
\<close>

record 'e call =
  cid :: nat
  ccode :: string
  cpersisted :: "'e FundEstimate option"

text \<open>
  \<open>PendingRequest\<close>: the fields \<open>resolve\<close>, \<open>reject\<close> and \<open>timeout\<close> of a record
  all belong to the invocation that pushed it, \<open>owner\<close>.
\<close>

record 'e PendingRequest =
  code :: string
  owner :: "'e call"

text \<open>
  The state of the module and of its environment: the limiter's variables, the live
  cache (its entries under \<open>estimate_\<close> keys), \<open>persistCache\<close>,
  \<open>pendingRequests\<close>, \<open>jsonpInitialized\<close>, the armed 8-second timers, the script
  elements whose load has not failed yet, and for each invocation how the promise
  created inside the limited task was settled (a promise settles once: later calls
  of its \<open>resolve\<close> or \<open>reject\<close> do nothing). The promise returned to the caller is
  logged in \<open>promises\<close>. The script elements themselves and their removal by
  \<open>cleanup\<close> touch the document only and are left out.

  Modelled from the spec: \<open>persistCache\<close> of the module \<open>./tiantianApi\<close>, which is
  not among the sources: per the spec (4.2) it has the read and write contract of the
  cache and no expiry of its own, so it is a map whose \<open>get\<close> is a lookup and whose
  \<open>set\<close> is an update. \<open>isTradingTime()\<close>, from the same module, is the input
  \<open>trading\<close> of a call, and \<open>CACHE_TTL.ESTIMATE\<close> is the parameter \<open>ttl\<close>.
\<close>

record 'e fetcher = "('e call, 'e FundEstimate) limiter" +
  cache :: "'e FundEstimate cache"
  persistCache :: "string \<rightharpoonup> 'e FundEstimate"
  pendingRequests :: "'e PendingRequest list"
  jsonpInitialized :: bool
  timers :: "'e call list"
  loading :: "'e call list"
  settled :: "nat \<rightharpoonup> 'e FundEstimate outcome"
  next_id :: nat

text \<open>\<open>Array.prototype.findIndex\<close> (\<open>None\<close> is -1) and \<open>splice(i, 1)\<close>.\<close>

fun findIndex :: "('a \<Rightarrow> bool) \<Rightarrow> 'a list \<Rightarrow> nat option" where
  "findIndex P [] = None"
| "findIndex P (x # xs) =
     (if P x then Some 0 else map_option Suc (findIndex P xs))"

definition splice1 :: "nat \<Rightarrow> 'a list \<Rightarrow> 'a list" where
  "splice1 i xs = take i xs @ drop (Suc i) xs"

definition clearTimeout :: "'e call \<Rightarrow> 'e call list \<Rightarrow> 'e call list" where
  "clearTimeout c ts = removeAll c ts"

text \<open>
  \<open>if (persisted) resolve(persisted) else reject(new Error(...))\<close>, the fallback of
  the timeout callback and of \<open>onerror\<close>.
\<close>

definition fallback :: "(string \<Rightarrow> error) \<Rightarrow> 'e call \<Rightarrow> 'e FundEstimate outcome" where
  "fallback mk c =
     (case cpersisted c of Some p \<Rightarrow> Resolved p | None \<Rightarrow> Rejected (mk (ccode c)))"

text \<open>
  The synchronous part of the limited task: the executor of \<open>new Promise\<close>, which
  installs the handler, arms the timer, pushes the pending record and appends the
  script element.
\<close>

definition dispatch :: "'e call \<Rightarrow> 'e fetcher \<Rightarrow> 'e fetcher" where
  "dispatch c s =
     s\<lparr>jsonpInitialized := True,
       timers := timers s @ [c],
       pendingRequests := pendingRequests s @ [\<lparr>code = ccode c, owner = c\<rparr>],
       loading := loading s @ [c]\<rparr>"

text \<open>
  Settling the promise of the limited task. Nothing happens if it is settled already.
  Otherwise \<open>execute\<close> resumes from its \<open>await\<close> in the same turn of the event
  loop (the handlers below settle the promise as their last action, and the
  continuation is the only microtask then), so the two are one step.
\<close>

definition settle :: "'e call \<Rightarrow> 'e FundEstimate outcome \<Rightarrow> 'e fetcher \<Rightarrow> 'e fetcher" where
  "settle c out s =
     (if settled s (cid c) \<noteq> None then s
      else execute_resume dispatch c out (s\<lparr>settled := (settled s)(cid c \<mapsto> out)\<rparr>))"

text \<open>The \<open>resolve\<close> closure stored in a pending record.\<close>

definition request_resolve ::
  "int \<Rightarrow> int \<Rightarrow> 'e call \<Rightarrow> 'e FundEstimate \<Rightarrow> 'e fetcher \<Rightarrow> 'e fetcher" where
  "request_resolve ttl now c d s =
     settle c (Resolved d)
       (s\<lparr>cache := cache_set now (estimate_key (ccode c)) d ttl (cache s),
          persistCache := (persistCache s)(estimate_key (ccode c) \<mapsto> d)\<rparr>)"

text \<open>The shared handler \<open>window.jsonpgz\<close> installed by \<open>initJsonpCallback\<close>.\<close>

definition jsonpgz :: "int \<Rightarrow> int \<Rightarrow> 'e FundEstimate option \<Rightarrow> 'e fetcher \<Rightarrow> 'e fetcher" where
  "jsonpgz ttl now data s =
     (case data of
        None \<Rightarrow> s
      | Some d \<Rightarrow>
          (case fundcode d of
             None \<Rightarrow> s
           | Some fc \<Rightarrow>
               if fc = [] then s
               else
                 (case findIndex (\<lambda>req. code req = fc) (pendingRequests s) of
                    None \<Rightarrow> s
                  | Some index \<Rightarrow>
                      let req = pendingRequests s ! index in
                      request_resolve ttl now (owner req) d
                        (s\<lparr>timers := clearTimeout (owner req) (timers s),
                           pendingRequests := splice1 index (pendingRequests s)\<rparr>))))"

text \<open>The callback of \<open>setTimeout(..., 8000)\<close> and \<open>script.onerror\<close>.\<close>

definition on_timeout :: "'e call \<Rightarrow> 'e fetcher \<Rightarrow> 'e fetcher" where
  "on_timeout c s =
     (let s1 = s\<lparr>timers := removeAll c (timers s)\<rparr>;
          s2 = (case findIndex (\<lambda>r. code r = ccode c) (pendingRequests s1) of
                  None \<Rightarrow> s1
                | Some idx \<Rightarrow> s1\<lparr>pendingRequests := splice1 idx (pendingRequests s1)\<rparr>)
      in settle c (fallback TimedOut c) s2)"

definition script_onerror :: "'e call \<Rightarrow> 'e fetcher \<Rightarrow> 'e fetcher" where
  "script_onerror c s =
     (let s1 = s\<lparr>loading := removeAll c (loading s)\<rparr>;
          s2 = (case findIndex (\<lambda>r. code r = ccode c) (pendingRequests s1) of
                  None \<Rightarrow> s1
                | Some idx \<Rightarrow>
                    s1\<lparr>timers := clearTimeout (owner (pendingRequests s1 ! idx)) (timers s1),
                       pendingRequests := splice1 idx (pendingRequests s1)\<rparr>)
      in settle c (fallback LoadFailed c) s2)"

definition fetchFundEstimateFast ::
  "int \<Rightarrow> int \<Rightarrow> bool \<Rightarrow> string \<Rightarrow> 'e fetcher \<Rightarrow> 'e fetcher" where
  "fetchFundEstimateFast ttl now trading fc s =
     (let cacheKey = estimate_key fc;
          (cached, cache') = cache_get now cacheKey (cache s);
          persisted = persistCache s cacheKey;
          c = \<lparr>cid = next_id s, ccode = fc, cpersisted = persisted\<rparr>;
          s1 = s\<lparr>cache := cache', next_id := next_id s + 1\<rparr>
      in case cached of
           Some v \<Rightarrow> s1\<lparr>promises := promises s1 @ [(c, Resolved v)]\<rparr>
         | None \<Rightarrow>
             (case persisted of
                Some p \<Rightarrow>
                  if \<not> trading
                  then s1\<lparr>cache := cache_set now cacheKey p ttl (cache s1),
                          promises := promises s1 @ [(c, Resolved p)]\<rparr>
                  else withConcurrencyControl dispatch c s1
              | None \<Rightarrow> withConcurrencyControl dispatch c s1))"

text \<open>
  What can happen: a call of \<open>fetchFundEstimateFast\<close> (with the clock reading and
  the answer of \<open>isTradingTime()\<close>), a call of \<open>jsonpgz\<close> by a loaded script, an
  armed timer firing, a script failing to load. Real time is abstracted: a timer may
  fire at any moment while it is armed. An event that is not enabled is skipped.
\<close>

datatype 'e event =
  Call string int bool
| Response int "'e FundEstimate option"
| TimerFires nat
| ScriptError nat

fun step :: "int \<Rightarrow> 'e fetcher \<Rightarrow> 'e event \<Rightarrow> 'e fetcher" where
  "step ttl s (Call fc now trading) = fetchFundEstimateFast ttl now trading fc s"
| "step ttl s (Response now data) = jsonpgz ttl now data s"
| "step ttl s (TimerFires i) =
     (case find (\<lambda>c. cid c = i) (timers s) of None \<Rightarrow> s | Some c \<Rightarrow> on_timeout c s)"
| "step ttl s (ScriptError i) =
     (case find (\<lambda>c. cid c = i) (loading s) of None \<Rightarrow> s | Some c \<Rightarrow> script_onerror c s)"

text \<open>
  The module when the application starts: nothing is in flight, the live cache is
  empty, and the persisted cache holds what earlier sessions left in it.
\<close>

definition fetcher_init :: "(string \<rightharpoonup> 'e FundEstimate) \<Rightarrow> 'e fetcher" where
  "fetcher_init persisted0 =
     \<lparr>activeRequests = 0, requestQueue = [], promises = [],
      cache = Map.empty, persistCache = persisted0, pendingRequests = [],
      jsonpInitialized = False, timers = [], loading = [], settled = Map.empty,
      next_id = 0\<rparr>"

definition run :: "int \<Rightarrow> 'e fetcher \<Rightarrow> 'e event list \<Rightarrow> 'e fetcher" where
  "run ttl s es = foldl (step ttl) s es"

text \<open>
  A run has no overlapping calls when no call for a code is made while a call for the
  same code is queued in the limiter or has a pending record.
\<close>

fun call_allowed :: "'e fetcher \<Rightarrow> 'e event \<Rightarrow> bool" where
  "call_allowed s (Call fc now trading) =
     (fc \<notin> set (map ccode (requestQueue s)) \<and> fc \<notin> set (map code (pendingRequests s)))"
| "call_allowed s _ = True"

fun no_overlap :: "int \<Rightarrow> 'e fetcher \<Rightarrow> 'e event list \<Rightarrow> bool" where
  "no_overlap ttl s [] = True"
| "no_overlap ttl s (e # es) = (call_allowed s e \<and> no_overlap ttl (step ttl s e) es)"

text \<open>No fund code occurs twice among the queued invocations and the pending records.\<close>

definition codes_distinct :: "'e fetcher \<Rightarrow> bool" where
  "codes_distinct s = distinct (map ccode (requestQueue s) @ map code (pendingRequests s))"

text \<open>
  Bookkeeping for the proofs: the invocations the state still refers to, and the
  invariant that identifiers are fresh and (when an invocation \<open>i\<close> is tracked) that
  \<open>c0\<close> is the only invocation with identifier \<open>i\<close>.
\<close>

definition calls_of :: "'e fetcher \<Rightarrow> 'e call set" where
  "calls_of s =
     set (timers s) \<union> set (loading s) \<union> set (requestQueue s) \<union>
     owner ` set (pendingRequests s)"

definition tracked :: "(nat \<times> 'e call) option \<Rightarrow> 'e fetcher \<Rightarrow> bool" where
  "tracked t s \<longleftrightarrow>
     (\<forall>c \<in> calls_of s. cid c < next_id s) \<and>
     (case t of
        None \<Rightarrow> True
      | Some (i, c0) \<Rightarrow> i < next_id s \<and> (\<forall>c \<in> calls_of s. cid c = i \<longrightarrow> c = c0))"

lemma findIndex_None: "findIndex P xs = None \<longleftrightarrow> (\<forall>x \<in> set xs. \<not> P x)"
  by (induction xs) auto

lemma findIndex_Some: "findIndex P xs = Some i \<Longrightarrow> i < length xs \<and> P (xs ! i)"
  by (induction xs arbitrary: i) (auto split: if_splits)

lemma distinct_splice1: "distinct xs \<Longrightarrow> distinct (splice1 i xs)"
  unfolding splice1_def
  by (simp add: set_take_disj_set_drop_if_distinct)

lemma map_splice1: "map f (splice1 i xs) = splice1 i (map f xs)"
  by (simp add: splice1_def take_map drop_map)

lemma set_splice1: "set (splice1 i xs) \<subseteq> set xs"
  unfolding splice1_def using set_take_subset set_drop_subset by fastforce

lemma codes_distinct_splice1:
  assumes "codes_distinct s"
    and "requestQueue s' = requestQueue s"
    and "pendingRequests s' = splice1 i (pendingRequests s)"
  shows "codes_distinct s'"
proof -
  have "set (map code (splice1 i (pendingRequests s))) \<subseteq> set (map code (pendingRequests s))"
    unfolding map_splice1 by (rule set_splice1)
  moreover have "distinct (map code (splice1 i (pendingRequests s)))"
    using assms(1) unfolding map_splice1 codes_distinct_def by (auto intro: distinct_splice1)
  ultimately show ?thesis
    using assms unfolding codes_distinct_def by auto
qed

lemma codes_distinct_same:
  assumes "codes_distinct s"
    and "requestQueue s' = requestQueue s"
    and "pendingRequests s' = pendingRequests s"
  shows "codes_distinct s'"
  using assms by (simp add: codes_distinct_def)

lemma codes_distinct_executeNext:
  "codes_distinct s \<Longrightarrow> codes_distinct (executeNext dispatch s)"
  by (cases "requestQueue s")
     (auto simp: codes_distinct_def executeNext_def execute_start_def dispatch_def)

lemma codes_distinct_settle:
  "codes_distinct s \<Longrightarrow> codes_distinct (settle c out s)"
proof -
  assume a: "codes_distinct s"
  have "codes_distinct (s\<lparr>settled := (settled s)(cid c \<mapsto> out),
      promises := promises s @ [(c, out)], activeRequests := activeRequests s - 1\<rparr>)"
    using a by (simp add: codes_distinct_def)
  then have "codes_distinct (execute_resume dispatch c out (s\<lparr>settled := (settled s)(cid c \<mapsto> out)\<rparr>))"
    unfolding execute_resume_def by (auto intro: codes_distinct_executeNext)
  then show ?thesis
    using a by (simp add: settle_def)
qed

lemma codes_distinct_jsonpgz:
  assumes "codes_distinct s"
  shows "codes_distinct (jsonpgz ttl now data s)"
proof -
  have "codes_distinct (request_resolve ttl now c d
        (s\<lparr>timers := ts, pendingRequests := splice1 i (pendingRequests s)\<rparr>))" for c d ts i
    unfolding request_resolve_def
    by (rule codes_distinct_settle, rule codes_distinct_splice1 [OF assms]) simp_all
  then show ?thesis
    using assms by (simp add: jsonpgz_def Let_def split: option.splits)
qed

lemma codes_distinct_on_timeout:
  assumes "codes_distinct s"
  shows "codes_distinct (on_timeout c s)"
proof -
  have "codes_distinct (s\<lparr>timers := ts, pendingRequests := splice1 i (pendingRequests s)\<rparr>)" for ts i
    by (rule codes_distinct_splice1 [OF assms]) simp_all
  moreover have "codes_distinct (s\<lparr>timers := ts\<rparr>)" for ts
    by (rule codes_distinct_same [OF assms]) simp_all
  ultimately show ?thesis
    by (auto simp: on_timeout_def Let_def intro!: codes_distinct_settle split: option.splits)
qed

lemma codes_distinct_script_onerror:
  assumes "codes_distinct s"
  shows "codes_distinct (script_onerror c s)"
proof -
  have "codes_distinct (s\<lparr>loading := ls, timers := ts,
      pendingRequests := splice1 i (pendingRequests s)\<rparr>)" for ls ts i
    by (rule codes_distinct_splice1 [OF assms]) simp_all
  moreover have "codes_distinct (s\<lparr>loading := ls\<rparr>)" for ls
    by (rule codes_distinct_same [OF assms]) simp_all
  ultimately show ?thesis
    by (auto simp: script_onerror_def Let_def intro!: codes_distinct_settle split: option.splits)
qed

lemma codes_distinct_submit:
  assumes "codes_distinct s"
    and "ccode c \<notin> set (map ccode (requestQueue s))"
    and "ccode c \<notin> set (map code (pendingRequests s))"
  shows "codes_distinct (withConcurrencyControl dispatch c s)"
  using assms
  by (auto simp: codes_distinct_def withConcurrencyControl_def execute_start_def dispatch_def)

lemma codes_distinct_fetch:
  assumes "codes_distinct s" and "call_allowed s (Call fc now trading)"
  shows "codes_distinct (fetchFundEstimateFast ttl now trading fc s)"
proof -
  obtain cached cache' where g: "cache_get now (estimate_key fc) (cache s) = (cached, cache')"
    by (cases "cache_get now (estimate_key fc) (cache s)")
  let ?s1 = "s\<lparr>cache := cache', next_id := next_id s + 1\<rparr>"
  have s1: "codes_distinct ?s1"
    by (rule codes_distinct_same [OF assms(1)]) simp_all
  have net: "codes_distinct (withConcurrencyControl dispatch c ?s1)" if "ccode c = fc" for c
    using assms(2) that by (intro codes_distinct_submit s1) simp_all
  have hit: "codes_distinct (?s1\<lparr>promises := ps\<rparr>)"
    and off: "codes_distinct (?s1\<lparr>cache := c', promises := ps\<rparr>)" for ps c'
    by (rule codes_distinct_same [OF assms(1)]; simp)+
  show ?thesis
    using net hit off by (simp add: fetchFundEstimateFast_def g Let_def split: option.splits)
qed

lemma codes_distinct_step:
  "codes_distinct s \<Longrightarrow> call_allowed s e \<Longrightarrow> codes_distinct (step ttl s e)"
  by (cases e)
     (auto simp: codes_distinct_fetch codes_distinct_jsonpgz codes_distinct_on_timeout
       codes_distinct_script_onerror split: option.splits)

lemma codes_distinct_run:
  "codes_distinct s \<Longrightarrow> no_overlap ttl s es \<Longrightarrow> codes_distinct (run ttl s es)"
  unfolding run_def
  by (induction es arbitrary: s) (auto simp: codes_distinct_step)

lemma codes_distinct_init: "codes_distinct (fetcher_init persisted0)"
  by (simp add: codes_distinct_def fetcher_init_def)

text \<open>
  C5 (amended). The module does not deduplicate: a call is pushed whether or not a
  record for its code is pending. In every state reached from the start of the
  application by a run without overlapping calls, \<open>pendingRequests\<close> holds at most one record per fund code.
\<close>

theorem pending_unique_without_overlap:
  "no_overlap ttl (fetcher_init persisted0) es \<Longrightarrow>
   distinct (map code (pendingRequests (run ttl (fetcher_init persisted0) es)))"
  using codes_distinct_run [OF codes_distinct_init, of ttl persisted0 es]
  by (simp add: codes_distinct_def)

lemmas fetch_eval =
  run_def fetcher_init_def fetchFundEstimateFast_def jsonpgz_def on_timeout_def
  script_onerror_def request_resolve_def settle_def fallback_def dispatch_def
  clearTimeout_def splice1_def cache_get_def cache_set_def estimate_key_def
  withConcurrencyControl_def execute_start_def execute_resume_def executeNext_def
  MAX_CONCURRENT_def Let_def

text \<open>
  C5 as stated fails: two calls for one code, the second before any response, leave
  two records with that code.
\<close>

theorem pending_duplicate_counterexample:
  "\<not> distinct (map code (pendingRequests
      (run 60000 (fetcher_init Map.empty :: unit fetcher)
         [Call ''000001'' 0 True, Call ''000001'' 1 True])))"
  by (simp add: fetch_eval)

theorem pending_unique_without_overlap_witness:
  "no_overlap 60000 (fetcher_init Map.empty :: unit fetcher)
     [Call ''000001'' 0 True, Call ''000002'' 0 True, TimerFires 0, Call ''000001'' 9000 True] \<and>
   map code (pendingRequests (run 60000 (fetcher_init Map.empty :: unit fetcher)
     [Call ''000001'' 0 True, Call ''000002'' 0 True, TimerFires 0, Call ''000001'' 9000 True]))
     = [''000002'', ''000001'']"
  using pending_unique_without_overlap [of 60000 Map.empty
      "[Call ''000001'' 0 True, Call ''000002'' 0 True, TimerFires 0, Call ''000001'' 9000 True] :: unit event list"]
  by (simp add: fetch_eval)

lemma promises_executeNext: "promises (executeNext dispatch s) = promises s"
  by (cases "requestQueue s") (simp_all add: executeNext_def execute_start_def dispatch_def)

lemma promises_settle:
  "settled s (cid c) = None \<Longrightarrow> promises (settle c out s) = promises s @ [(c, out)]"
  by (simp add: settle_def execute_resume_def promises_executeNext)

text \<open>
  C4. A response without data, without a fund code, with an empty fund code, or with
  a fund code that no pending record carries (a late response after the timeout
  removed the record is such a response) leaves the whole state unchanged: no live or
  persisted cache entry is written and no promise is settled.
\<close>

theorem unmatched_response_ignored:
  "(case data of
      None \<Rightarrow> True
    | Some d \<Rightarrow>
        (case fundcode d of
           None \<Rightarrow> True
         | Some fc \<Rightarrow> fc = [] \<or> fc \<notin> set (map code (pendingRequests s))))
   \<Longrightarrow> step ttl s (Response now data) = s"
  by (auto simp: jsonpgz_def findIndex_None split: option.splits dest!: findIndex_Some)

theorem unmatched_response_ignored_witness:
  "pendingRequests (run 60000 (fetcher_init Map.empty :: unit fetcher)
      [Call ''000001'' 0 True, TimerFires 0]) = [] \<and>
   run 60000 (fetcher_init Map.empty :: unit fetcher)
      [Call ''000001'' 0 True, TimerFires 0,
       Response 9000 (Some \<lparr>fundcode = Some ''000001'', details = ()\<rparr>)] =
   run 60000 (fetcher_init Map.empty :: unit fetcher) [Call ''000001'' 0 True, TimerFires 0]"
proof -
  let ?s = "run 60000 (fetcher_init Map.empty :: unit fetcher) [Call ''000001'' 0 True, TimerFires 0]"
  have p: "pendingRequests ?s = []"
    by (simp add: fetch_eval)
  have "step 60000 ?s (Response 9000 (Some \<lparr>fundcode = Some ''000001'', details = ()\<rparr>)) = ?s"
    by (rule unmatched_response_ignored) (simp add: p)
  then show ?thesis
    using p by (simp add: run_def)
qed

text \<open>
  One step of fallback, in any state: when the timer of an invocation fires, or its
  script fails to load, while its promise is unsettled, the promise returned to the
  caller resolves with the persisted value the invocation captured, if it captured
  one, and is rejected otherwise. An invocation that goes to the network is queued
  or dispatched with the value of \<open>persistCache\<close> at its key when it was issued.
\<close>

lemma fallback_step:
  "(find (\<lambda>c. cid c = i) (timers s) = Some c \<and> settled s (cid c) = None \<longrightarrow>
      promises (step ttl s (TimerFires i)) =
        promises s @ [(c, case cpersisted c of
                            Some p \<Rightarrow> Resolved p
                          | None \<Rightarrow> Rejected (TimedOut (ccode c)))]) \<and>
   (find (\<lambda>c. cid c = i) (loading s) = Some c \<and> settled s (cid c) = None \<longrightarrow>
      promises (step ttl s (ScriptError i)) =
        promises s @ [(c, case cpersisted c of
                            Some p \<Rightarrow> Resolved p
                          | None \<Rightarrow> Rejected (LoadFailed (ccode c)))]) \<and>
   (fst (cache_get now (estimate_key fc) (cache s)) = None \<and>
    (trading \<or> persistCache s (estimate_key fc) = None) \<longrightarrow>
      (let c0 = \<lparr>cid = next_id s, ccode = fc, cpersisted = persistCache s (estimate_key fc)\<rparr>;
           s1 = step ttl s (Call fc now trading)
       in if activeRequests s < MAX_CONCURRENT
          then timers s1 = timers s @ [c0] \<and> loading s1 = loading s @ [c0] \<and>
               pendingRequests s1 = pendingRequests s @ [\<lparr>code = fc, owner = c0\<rparr>]
          else requestQueue s1 = requestQueue s @ [c0]))"
proof (intro conjI impI)
  assume "find (\<lambda>c. cid c = i) (timers s) = Some c \<and> settled s (cid c) = None"
  then show "promises (step ttl s (TimerFires i)) =
        promises s @ [(c, case cpersisted c of
                            Some p \<Rightarrow> Resolved p
                          | None \<Rightarrow> Rejected (TimedOut (ccode c)))]"
    by (simp add: on_timeout_def Let_def promises_settle fallback_def split: option.splits)
next
  assume "find (\<lambda>c. cid c = i) (loading s) = Some c \<and> settled s (cid c) = None"
  then show "promises (step ttl s (ScriptError i)) =
        promises s @ [(c, case cpersisted c of
                            Some p \<Rightarrow> Resolved p
                          | None \<Rightarrow> Rejected (LoadFailed (ccode c)))]"
    by (simp add: script_onerror_def Let_def promises_settle fallback_def split: option.splits)
next
  assume a: "fst (cache_get now (estimate_key fc) (cache s)) = None \<and>
    (trading \<or> persistCache s (estimate_key fc) = None)"
  obtain cached cache' where g: "cache_get now (estimate_key fc) (cache s) = (cached, cache')"
    by (cases "cache_get now (estimate_key fc) (cache s)")
  with a have "cached = None" by simp
  with a g show "let c0 = \<lparr>cid = next_id s, ccode = fc, cpersisted = persistCache s (estimate_key fc)\<rparr>;
           s1 = step ttl s (Call fc now trading)
       in if activeRequests s < MAX_CONCURRENT
          then timers s1 = timers s @ [c0] \<and> loading s1 = loading s @ [c0] \<and>
               pendingRequests s1 = pendingRequests s @ [\<lparr>code = fc, owner = c0\<rparr>]
          else requestQueue s1 = requestQueue s @ [c0]"
    by (auto simp: fetchFundEstimateFast_def Let_def withConcurrencyControl_def
        execute_start_def dispatch_def split: option.splits)
qed

lemma tracked_sub:
  assumes "tracked t s"
    and "calls_of s' \<subseteq> calls_of s"
    and "next_id s' = next_id s"
  shows "tracked t s'"
  using assms unfolding tracked_def by (auto simp: subset_iff split: option.splits)

lemma tracked_executeNext:
  assumes "tracked t s"
  shows "tracked t (executeNext dispatch s)"
proof (cases "requestQueue s")
  case Nil
  then show ?thesis using assms by (simp add: executeNext_def)
next
  case (Cons q qs)
  show ?thesis
  proof (cases "activeRequests s < MAX_CONCURRENT")
    case False
    then show ?thesis using assms by (simp add: executeNext_def)
  next
    case True
    with Cons have e: "executeNext dispatch s =
      s\<lparr>requestQueue := qs, activeRequests := activeRequests s + 1,
        jsonpInitialized := True, timers := timers s @ [q],
        pendingRequests := pendingRequests s @ [\<lparr>code = ccode q, owner = q\<rparr>],
        loading := loading s @ [q]\<rparr>"
      by (simp add: executeNext_def execute_start_def dispatch_def)
    show ?thesis
      using assms Cons unfolding e tracked_def calls_of_def
      by (auto split: option.splits)
  qed
qed

lemma tracked_settle:
  assumes "tracked t s"
  shows "tracked t (settle c out s)"
proof -
  have "tracked t (s\<lparr>settled := st, promises := ps, activeRequests := a\<rparr>)" for st ps a
    by (rule tracked_sub [OF assms]) (simp_all add: calls_of_def)
  then show ?thesis
    by (simp add: settle_def execute_resume_def assms tracked_executeNext)
qed

lemma calls_of_splice1:
  assumes "set (timers s') \<subseteq> set (timers s)" "set (loading s') \<subseteq> set (loading s)"
    "requestQueue s' = requestQueue s" "pendingRequests s' = splice1 k (pendingRequests s)"
  shows "calls_of s' \<subseteq> calls_of s"
  using assms set_splice1 [of k "pendingRequests s"] unfolding calls_of_def by auto

lemma calls_of_same:
  assumes "set (timers s') \<subseteq> set (timers s)" "set (loading s') \<subseteq> set (loading s)"
    "requestQueue s' = requestQueue s" "pendingRequests s' = pendingRequests s"
  shows "calls_of s' \<subseteq> calls_of s"
  using assms unfolding calls_of_def by auto

lemma tracked_on_timeout:
  assumes "tracked t s"
  shows "tracked t (on_timeout c s)"
proof -
  have "tracked t (s\<lparr>timers := removeAll c (timers s),
      pendingRequests := splice1 k (pendingRequests s)\<rparr>)" for k
    by (rule tracked_sub [OF assms], rule calls_of_splice1) simp_all
  moreover have "tracked t (s\<lparr>timers := removeAll c (timers s)\<rparr>)"
    by (rule tracked_sub [OF assms], rule calls_of_same) simp_all
  ultimately show ?thesis
    by (auto simp: on_timeout_def Let_def intro!: tracked_settle split: option.splits)
qed

lemma tracked_script_onerror:
  assumes "tracked t s"
  shows "tracked t (script_onerror c s)"
proof -
  have "tracked t (s\<lparr>loading := removeAll c (loading s),
      timers := clearTimeout c' (timers s),
      pendingRequests := splice1 k (pendingRequests s)\<rparr>)" for k c'
    by (rule tracked_sub [OF assms], rule calls_of_splice1)
       (simp_all add: clearTimeout_def)
  moreover have "tracked t (s\<lparr>loading := removeAll c (loading s)\<rparr>)"
    by (rule tracked_sub [OF assms], rule calls_of_same) simp_all
  ultimately show ?thesis
    by (auto simp: script_onerror_def Let_def intro!: tracked_settle split: option.splits)
qed

lemma tracked_jsonpgz:
  assumes "tracked t s"
  shows "tracked t (jsonpgz ttl now data s)"
proof -
  have "tracked t (request_resolve ttl now c d
        (s\<lparr>timers := clearTimeout c (timers s),
           pendingRequests := splice1 k (pendingRequests s)\<rparr>))" for k c d
  proof -
    have "tracked t (s\<lparr>timers := clearTimeout c (timers s),
           pendingRequests := splice1 k (pendingRequests s),
           cache := lc, persistCache := pc\<rparr>)" for lc pc
      by (rule tracked_sub [OF assms], rule calls_of_splice1)
         (simp_all add: clearTimeout_def)
    then show ?thesis
      unfolding request_resolve_def by (simp add: tracked_settle)
  qed
  then show ?thesis
    using assms by (auto simp: jsonpgz_def Let_def split: option.splits)
qed

lemma tracked_grow:
  assumes "tracked t s"
    and "calls_of s' \<subseteq> insert c (calls_of s)"
    and "cid c = next_id s"
    and "next_id s' = Suc (next_id s)"
  shows "tracked t s'"
proof -
  have 2: "\<forall>c \<in> calls_of s'. cid c < next_id s'"
  proof
    fix c' assume "c' \<in> calls_of s'"
    with assms(2) have "c' = c \<or> c' \<in> calls_of s" by auto
    with assms(1,3,4) show "cid c' < next_id s'"
      unfolding tracked_def by (auto simp: less_Suc_eq)
  qed
  have 3: "i < next_id s' \<and> (\<forall>c \<in> calls_of s'. cid c = i \<longrightarrow> c = c0)"
    if t: "t = Some (i, c0)" for i c0
  proof -
    from assms(1) t have a: "i < next_id s" "\<forall>c \<in> calls_of s. cid c = i \<longrightarrow> c = c0"
      unfolding tracked_def by auto
    have "\<forall>c' \<in> calls_of s'. cid c' = i \<longrightarrow> c' = c0"
    proof (intro ballI impI)
      fix c' assume "c' \<in> calls_of s'" "cid c' = i"
      with assms(2) have "c' = c \<or> c' \<in> calls_of s" by auto
      with a(1,2) assms(3) \<open>cid c' = i\<close> show "c' = c0" by auto
    qed
    with a assms(4) show ?thesis by simp
  qed
  show ?thesis
    unfolding tracked_def using 2 3 by (auto split: option.splits)
qed

lemma tracked_fetch:
  assumes "tracked t s"
  shows "tracked t (fetchFundEstimateFast ttl now trading fc s)"
proof -
  obtain cached cache' where g: "cache_get now (estimate_key fc) (cache s) = (cached, cache')"
    by (cases "cache_get now (estimate_key fc) (cache s)")
  let ?s1 = "s\<lparr>cache := cache', next_id := next_id s + 1\<rparr>"
  have s1: "tracked t (?s1\<lparr>cache := c', promises := ps\<rparr>)" for c' ps
    by (rule tracked_grow [OF assms, where c = "\<lparr>cid = next_id s, ccode = fc, cpersisted = None\<rparr>"])
       (auto simp: calls_of_def)
  have s1': "tracked t (?s1\<lparr>promises := ps\<rparr>)" for ps
    by (rule tracked_grow [OF assms, where c = "\<lparr>cid = next_id s, ccode = fc, cpersisted = None\<rparr>"])
       (auto simp: calls_of_def)
  have net: "tracked t (withConcurrencyControl dispatch c ?s1)" if "cid c = next_id s" for c
    by (rule tracked_grow [OF assms, where c = c])
       (auto simp: that calls_of_def withConcurrencyControl_def execute_start_def dispatch_def)
  show ?thesis
    using s1 s1' net by (simp add: fetchFundEstimateFast_def g Let_def split: option.splits)
qed

lemma tracked_step:
  assumes "tracked t s"
  shows "tracked t (step ttl s e)"
  using assms
  by (cases e)
     (auto simp: tracked_fetch tracked_jsonpgz tracked_on_timeout tracked_script_onerror
       split: option.splits)

lemma tracked_run:
  assumes "tracked t s"
  shows "tracked t (run ttl s es)"
  using assms unfolding run_def
  by (induction es arbitrary: s) (auto simp: tracked_step)

lemma tracked_init: "tracked None (fetcher_init persisted0)"
  by (simp add: tracked_def calls_of_def fetcher_init_def)

lemma tracked_start:
  assumes "tracked None s"
    and "calls_of s' \<subseteq> insert c (calls_of s)"
    and "cid c = next_id s"
    and "next_id s' = Suc (next_id s)"
  shows "tracked (Some (next_id s, c)) s'"
proof -
  have base: "tracked None s'"
    by (rule tracked_grow [OF assms])
  have old: "\<forall>c' \<in> calls_of s. cid c' < next_id s"
    using assms(1) unfolding tracked_def by simp
  have "\<forall>c' \<in> calls_of s'. cid c' = next_id s \<longrightarrow> c' = c"
  proof (intro ballI impI)
    fix c' assume "c' \<in> calls_of s'" "cid c' = next_id s"
    with assms(2) have "c' = c \<or> c' \<in> calls_of s" by auto
    with old \<open>cid c' = next_id s\<close> show "c' = c" by auto
  qed
  with base assms(4) show ?thesis
    unfolding tracked_def by simp
qed

lemma tracked_call:
  assumes "tracked None s"
  shows "tracked (Some (next_id s,
            \<lparr>cid = next_id s, ccode = fc, cpersisted = persistCache s (estimate_key fc)\<rparr>))
          (fetchFundEstimateFast ttl now trading fc s)"
proof -
  obtain cached cache' where g: "cache_get now (estimate_key fc) (cache s) = (cached, cache')"
    by (cases "cache_get now (estimate_key fc) (cache s)")
  let ?c = "\<lparr>cid = next_id s, ccode = fc, cpersisted = persistCache s (estimate_key fc)\<rparr>"
  let ?s1 = "s\<lparr>cache := cache', next_id := next_id s + 1\<rparr>"
  let ?T = "tracked (Some (next_id s, ?c))"
  have s1: "?T (?s1\<lparr>cache := c', promises := ps\<rparr>)" for c' ps
    by (rule tracked_start [OF assms]) (auto simp: calls_of_def)
  have s1': "?T (?s1\<lparr>promises := ps\<rparr>)" for ps
    by (rule tracked_start [OF assms]) (auto simp: calls_of_def)
  have net: "?T (withConcurrencyControl dispatch ?c ?s1)"
    by (rule tracked_start [OF assms])
       (auto simp: calls_of_def withConcurrencyControl_def execute_start_def dispatch_def)
  show ?thesis
    using s1 s1' net
    by (auto simp: fetchFundEstimateFast_def g Let_def split: option.splits)
qed

lemma run_Cons: "run ttl s (e # es) = run ttl (step ttl s e) es"
  by (simp add: run_def)

lemma run_snoc: "run ttl s (es @ [e]) = step ttl (run ttl s es) e"
  by (simp add: run_def)

text \<open>
  C3 (amended). Take any state reachable from the start of the application (whatever
  the persisted cache held then), issue \<open>fetchFundEstimateFast fc\<close> in it, and let
  anything happen afterwards. If then the callback of the 8-second timer of that
  invocation runs (the timer is still armed), or the \<open>onerror\<close> handler of its script
  runs, while its promise is unsettled, the promise returned to the caller resolves
  with the value the persisted cache held for \<open>fc\<close> when the invocation was issued,
  if it held one then, and is rejected with an error (timeout, respectively load
  failure, of \<open>fc\<close>) if it held none then.
\<close>

theorem estimate_fallback_captured:
  "s0 = run ttl (fetcher_init persisted0) es0 \<Longrightarrow>
   s2 = run ttl s0 (Call fc now trading # es) \<Longrightarrow>
   i = next_id s0 \<Longrightarrow>
   settled s2 i = None \<Longrightarrow>
   (find (\<lambda>c. cid c = i) (timers s2) = Some c \<longrightarrow>
      promises (step ttl s2 (TimerFires i)) =
        promises s2 @ [(c, case persistCache s0 (estimate_key fc) of
                             Some p \<Rightarrow> Resolved p
                           | None \<Rightarrow> Rejected (TimedOut fc))]) \<and>
   (find (\<lambda>c. cid c = i) (loading s2) = Some c \<longrightarrow>
      promises (step ttl s2 (ScriptError i)) =
        promises s2 @ [(c, case persistCache s0 (estimate_key fc) of
                             Some p \<Rightarrow> Resolved p
                           | None \<Rightarrow> Rejected (LoadFailed fc))])"
proof -
  assume s0: "s0 = run ttl (fetcher_init persisted0) es0"
    and s2: "s2 = run ttl s0 (Call fc now trading # es)"
    and i: "i = next_id s0"
    and unsettled: "settled s2 i = None"
  let ?v = "persistCache s0 (estimate_key fc)"
  let ?c0 = "\<lparr>cid = i, ccode = fc, cpersisted = ?v\<rparr>"
  have "tracked None s0"
    unfolding s0 by (rule tracked_run [OF tracked_init])
  then have "tracked (Some (i, ?c0)) (step ttl s0 (Call fc now trading))"
    unfolding i by (simp add: tracked_call)
  then have "tracked (Some (i, ?c0)) s2"
    unfolding s2 run_Cons by (rule tracked_run)
  then have only: "\<forall>c \<in> calls_of s2. cid c = i \<longrightarrow> c = ?c0"
    unfolding tracked_def by simp
  have c0: "c = ?c0" if "find (\<lambda>c. cid c = i) xs = Some c" "set xs \<subseteq> calls_of s2" for xs
    using that only by (auto simp: find_Some_iff subset_iff)
  show ?thesis
  proof (intro conjI impI)
    assume f: "find (\<lambda>c. cid c = i) (timers s2) = Some c"
    then have c: "c = ?c0"
      by (rule c0) (auto simp: calls_of_def)
    from f unsettled c have "find (\<lambda>c. cid c = i) (timers s2) = Some c \<and> settled s2 (cid c) = None"
      by simp
    with fallback_step [of i s2 c ttl] have "promises (step ttl s2 (TimerFires i)) =
        promises s2 @ [(c, case cpersisted c of
                            Some p \<Rightarrow> Resolved p
                          | None \<Rightarrow> Rejected (TimedOut (ccode c)))]"
      by blast
    moreover from c have "ccode c = fc" "cpersisted c = ?v"
      by simp_all
    ultimately show "promises (step ttl s2 (TimerFires i)) =
        promises s2 @ [(c, case ?v of
                             Some p \<Rightarrow> Resolved p
                           | None \<Rightarrow> Rejected (TimedOut fc))]"
      by (simp only:)
  next
    assume f: "find (\<lambda>c. cid c = i) (loading s2) = Some c"
    then have c: "c = ?c0"
      by (rule c0) (auto simp: calls_of_def)
    from f unsettled c have "find (\<lambda>c. cid c = i) (loading s2) = Some c \<and> settled s2 (cid c) = None"
      by simp
    with fallback_step [of i s2 c ttl] have "promises (step ttl s2 (ScriptError i)) =
        promises s2 @ [(c, case cpersisted c of
                            Some p \<Rightarrow> Resolved p
                          | None \<Rightarrow> Rejected (LoadFailed (ccode c)))]"
      by blast
    moreover from c have "ccode c = fc" "cpersisted c = ?v"
      by simp_all
    ultimately show "promises (step ttl s2 (ScriptError i)) =
        promises s2 @ [(c, case ?v of
                             Some p \<Rightarrow> Resolved p
                           | None \<Rightarrow> Rejected (LoadFailed fc))]"
      by (simp only:)
  qed
qed

text \<open>
  C3 as stated fails in two ways. First, the fallback is the value the invocation
  read when it was issued, not the value persisted when the timer fires: when two
  fetches of one code overlap, the response is consumed by the first and persisted,
  and the second, whose timer fires afterwards, is rejected although the persisted
  cache holds a value for the code. Second, \<open>onerror\<close> clears the timer of whichever
  pending record carries its code: when the script of a fetch that already timed out
  fails to load after a second fetch of the same code was issued, the handler clears
  the timer of the second fetch and removes its record, so that neither the timeout
  nor a response settles the second promise any more.
\<close>

theorem estimate_fallback_counterexample:
  "persistCache (run 60000 (fetcher_init Map.empty :: unit fetcher)
      [Call ''000001'' 0 True, Call ''000001'' 1 True,
       Response 100 (Some \<lparr>fundcode = Some ''000001'', details = ()\<rparr>)])
     (estimate_key ''000001'') = Some \<lparr>fundcode = Some ''000001'', details = ()\<rparr> \<and>
   map (\<lambda>(c, out). (cid c, out)) (promises (run 60000 (fetcher_init Map.empty :: unit fetcher)
      [Call ''000001'' 0 True, Call ''000001'' 1 True,
       Response 100 (Some \<lparr>fundcode = Some ''000001'', details = ()\<rparr>),
       TimerFires 1])) =
     [(0, Resolved \<lparr>fundcode = Some ''000001'', details = ()\<rparr>),
      (1, Rejected (TimedOut ''000001''))] \<and>
   (let s = run 60000 (fetcher_init Map.empty :: unit fetcher)
        [Call ''000001'' 0 True, TimerFires 0, Call ''000001'' 9000 True, ScriptError 0]
    in timers s = [] \<and> pendingRequests s = [] \<and> settled s 1 = None \<and>
       map (\<lambda>(c, out). (cid c, out)) (promises s) = [(0, Rejected (TimedOut ''000001''))] \<and>
       step 60000 s (TimerFires 1) = s \<and>
       step 60000 s (Response 9100 (Some \<lparr>fundcode = Some ''000001'', details = ()\<rparr>)) = s)"
proof -
  let ?d = "\<lparr>fundcode = Some ''000001'', details = ()\<rparr> :: unit FundEstimate"
  let ?s = "run 60000 (fetcher_init Map.empty :: unit fetcher)
        [Call ''000001'' 0 True, TimerFires 0, Call ''000001'' 9000 True, ScriptError 0]"
  have a: "persistCache (run 60000 (fetcher_init Map.empty :: unit fetcher)
      [Call ''000001'' 0 True, Call ''000001'' 1 True, Response 100 (Some ?d)])
     (estimate_key ''000001'') = Some ?d"
    by (simp add: fetch_eval)
  have b: "map (\<lambda>(c, out). (cid c, out)) (promises (run 60000 (fetcher_init Map.empty :: unit fetcher)
      [Call ''000001'' 0 True, Call ''000001'' 1 True, Response 100 (Some ?d), TimerFires 1])) =
     [(0, Resolved ?d), (1, Rejected (TimedOut ''000001''))]"
    by (simp add: fetch_eval)
  have t: "timers ?s = []"
    by (simp add: fetch_eval)
  have p: "pendingRequests ?s = []"
    by (simp add: fetch_eval)
  have u: "settled ?s 1 = None"
    by (simp add: fetch_eval)
  have pr: "map (\<lambda>(c, out). (cid c, out)) (promises ?s) = [(0, Rejected (TimedOut ''000001''))]"
    by (simp add: fetch_eval)
  have st: "step 60000 ?s (TimerFires 1) = ?s"
    by (simp add: t)
  have sr: "step 60000 ?s (Response 9100 (Some ?d)) = ?s"
    by (simp add: jsonpgz_def p)
  from a b t p u pr st sr show ?thesis
    by (simp only: Let_def)
qed

theorem estimate_fallback_captured_witness:
  "map (\<lambda>(c, out). (cid c, out)) (promises (run 60000 (fetcher_init Map.empty :: unit fetcher)
      [Call ''000001'' 0 True,
       Response 100 (Some \<lparr>fundcode = Some ''000001'', details = ()\<rparr>),
       Call ''000001'' 100000 True,
       Response 100100 (Some \<lparr>fundcode = Some ''000002'', details = ()\<rparr>),
       TimerFires 1])) =
     [(0, Resolved \<lparr>fundcode = Some ''000001'', details = ()\<rparr>),
      (1, Resolved \<lparr>fundcode = Some ''000001'', details = ()\<rparr>)] \<and>
   map (\<lambda>(c, out). (cid c, out)) (promises (run 60000 (fetcher_init Map.empty :: unit fetcher)
      [Call ''000001'' 0 True, ScriptError 0])) =
     [(0, Rejected (LoadFailed ''000001''))]"
proof -
  let ?d = "\<lparr>fundcode = Some ''000001'', details = ()\<rparr> :: unit FundEstimate"
  let ?before = "[Call ''000001'' 0 True, Response 100 (Some ?d)] :: unit event list"
  let ?after = "[Response 100100 (Some \<lparr>fundcode = Some ''000002'', details = ()\<rparr>)] :: unit event list"
  let ?issued = "run 60000 (fetcher_init Map.empty :: unit fetcher) ?before"
  let ?late = "run 60000 ?issued (Call ''000001'' 100000 True # ?after)"
  let ?c = "\<lparr>cid = 1, ccode = ''000001'', cpersisted = Some ?d\<rparr> :: unit call"
  have n: "next_id ?issued = 1"
    by (simp add: fetch_eval)
  have u: "settled ?late 1 = None"
    by (simp add: fetch_eval)
  have f: "find (\<lambda>c. cid c = 1) (timers ?late) = Some ?c"
    by (simp add: fetch_eval)
  have p: "persistCache ?issued (estimate_key ''000001'') = Some ?d"
    by (simp add: fetch_eval)
  have pr: "promises ?late = [(\<lparr>cid = 0, ccode = ''000001'', cpersisted = None\<rparr>, Resolved ?d)]"
    by (simp add: fetch_eval)
  have "promises (step 60000 ?late (TimerFires 1)) = promises ?late @ [(?c, Resolved ?d)]"
    using estimate_fallback_captured [OF refl refl n [symmetric] u, of ?c] f p
    by simp
  then have stp: "map (\<lambda>(c, out). (cid c, out)) (promises (step 60000 ?late (TimerFires 1))) =
     [(0, Resolved ?d), (1, Resolved ?d)]"
    by (simp only: pr) simp
  have w: "run 60000 (fetcher_init Map.empty :: unit fetcher)
      [Call ''000001'' 0 True, Response 100 (Some ?d), Call ''000001'' 100000 True,
       Response 100100 (Some \<lparr>fundcode = Some ''000002'', details = ()\<rparr>),
       TimerFires 1] = step 60000 ?late (TimerFires 1)"
    by (simp only: run_def foldl.simps)
  have 1: "map (\<lambda>(c, out). (cid c, out)) (promises (run 60000 (fetcher_init Map.empty :: unit fetcher)
      [Call ''000001'' 0 True, Response 100 (Some ?d), Call ''000001'' 100000 True,
       Response 100100 (Some \<lparr>fundcode = Some ''000002'', details = ()\<rparr>),
       TimerFires 1])) = [(0, Resolved ?d), (1, Resolved ?d)]"
    by (simp only: w stp)
  have 2: "map (\<lambda>(c, out). (cid c, out)) (promises (run 60000 (fetcher_init Map.empty :: unit fetcher)
      [Call ''000001'' 0 True, ScriptError 0])) =
     [(0, Rejected (LoadFailed ''000001''))]"
    by (simp add: fetch_eval)
  from 1 2 show ?thesis by (rule conjI)
qed

section \<open>Net-value history and the analytics derived from it\<close>

text \<open>
  The numbers the feed delivers are finite doubles; such a number is modelled by its
  exact value, a rational, and the comparisons of the source are comparisons of these
  values. The results of the double arithmetic of \<open>calculatePeriodReturns\<close> are
  numbers of the runtime, which may be infinite or \<open>NaN\<close>. The clock and the
  calendar belong to the runtime too: \<open>now\<close> is the clock reading when a function
  is called, \<open>later\<close> the reading when it resumes after its \<open>await\<close>, and \<open>fmt\<close>
  renders a timestamp as the local date \<open>YYYY-MM-DD\<close>; they are parameters. A
  function is modelled as one step from its call to the settling of its promise.
\<close>

datatype number = Num rat | Infinity | NegInfinity | NaN

text \<open>
  \<open>NetValueRecord\<close> (declared in types/fund, outside the sources; the fields are the
  ones \<open>fetchNetValueHistoryFast\<close> writes), \<open>SimpleKLineData\<close> (its fields \<open>time\<close>,
  \<open>value\<close>, \<open>change\<close> and the optional \<open>volume\<close> carry the prefix \<open>kl_\<close>) and
  \<open>PeriodReturn\<close>, whose \<open>change\<close> is computed.
\<close>

record NetValueRecord =
  date :: string
  netValue :: rat
  totalNetValue :: rat
  changeRate :: rat

record SimpleKLineData =
  kl_time :: string
  kl_value :: rat
  kl_change :: rat
  kl_volume :: "rat option"

record PeriodReturn =
  period :: string
  label :: string
  days :: nat
  change :: number

text \<open>
  The cache, seen through the type arguments of \<open>cache.get\<close>: one typed store for
  each of the three kinds of entries these functions read and write. The keys of
  different kinds never coincide (they start with different prefixes).
\<close>

record stores =
  netvalues :: "NetValueRecord list cache"
  klines :: "SimpleKLineData list cache"
  periods :: "PeriodReturn list cache"

text \<open>
  What the loaded script leaves in \<open>window.Data_netWorthTrend\<close>: items with a
  timestamp \<open>x\<close>, a value \<open>y\<close> and \<open>equityReturn\<close> (\<open>None\<close> is a missing or falsy
  field, which \<open>|| 0\<close> turns into 0); an item that is \<open>null\<close> makes the conversion
  throw. The script either times out after 15 seconds, fails to load, or loads.
\<close>

record trend_item =
  item_x :: int
  item_y :: "rat option"
  item_equityReturn :: "rat option"

datatype script_load = LoadTimeout | LoadError | Loaded "trend_item option list"

text \<open>\<open>trend.slice(-days)\<close>: the last \<open>days\<close> items; \<open>slice(-0)\<close> is the whole array.\<close>

definition slice_last :: "nat \<Rightarrow> 'a list \<Rightarrow> 'a list" where
  "slice_last n xs = (if n = 0 then xs else drop (length xs - n) xs)"

definition or_zero :: "rat option \<Rightarrow> rat" where
  "or_zero v = (case v of None \<Rightarrow> 0 | Some r \<Rightarrow> r)"

definition to_record :: "(int \<Rightarrow> string) \<Rightarrow> trend_item \<Rightarrow> NetValueRecord" where
  "to_record fmt item =
     \<lparr>date = fmt (item_x item),
      netValue = or_zero (item_y item),
      totalNetValue = or_zero (item_y item),
      changeRate = or_zero (item_equityReturn item)\<rparr>"

fun items_of :: "trend_item option list \<Rightarrow> trend_item list option" where
  "items_of [] = Some []"
| "items_of (None # xs) = None"
| "items_of (Some i # xs) = map_option ((#) i) (items_of xs)"

text \<open>
  \<open>fetchNetValueHistoryFast\<close>: a live cache entry is returned as it is; otherwise
  every failure resolves with the empty list and a loaded trend is cut, converted,
  reversed to newest first and cached. \<open>ttl\<close> is \<open>CACHE_TTL.NET_VALUE\<close>.
\<close>

definition fetchNetValueHistoryFast ::
  "int \<Rightarrow> (int \<Rightarrow> string) \<Rightarrow> int \<Rightarrow> int \<Rightarrow> script_load \<Rightarrow> string \<Rightarrow> nat \<Rightarrow>
   NetValueRecord list cache \<Rightarrow> NetValueRecord list \<times> NetValueRecord list cache" where
  "fetchNetValueHistoryFast ttl fmt now later reply fc n c =
     (let cacheKey = netvalue_key fc n in
      case cache_get now cacheKey c of
        (Some cached, c1) \<Rightarrow> (cached, c1)
      | (None, c1) \<Rightarrow>
          (case reply of
             LoadTimeout \<Rightarrow> ([], c1)
           | LoadError \<Rightarrow> ([], c1)
           | Loaded trend \<Rightarrow>
               if length trend = 0 then ([], c1)
               else
                 (case items_of (slice_last n trend) of
                    None \<Rightarrow> ([], c1)
                  | Some recentData \<Rightarrow>
                      let records = rev (map (to_record fmt) recentData)
                      in (records, cache_set later cacheKey records ttl c1))))"

definition fetchSimpleKLineData ::
  "int \<Rightarrow> (int \<Rightarrow> string) \<Rightarrow> int \<Rightarrow> int \<Rightarrow> script_load \<Rightarrow> string \<Rightarrow> nat \<Rightarrow>
   stores \<Rightarrow> SimpleKLineData list \<times> stores" where
  "fetchSimpleKLineData ttl fmt now later reply fc n s =
     (let cacheKey = kline_key fc n in
      case cache_get now cacheKey (klines s) of
        (Some cached, k1) \<Rightarrow> (cached, s\<lparr>klines := k1\<rparr>)
      | (None, k1) \<Rightarrow>
          let (history, n1) = fetchNetValueHistoryFast ttl fmt now later reply fc n (netvalues s);
              klineData =
                rev (map (\<lambda>item. \<lparr>kl_time = date item, kl_value = netValue item,
                                   kl_change = changeRate item, kl_volume = None\<rparr>) history)
          in (klineData, s\<lparr>netvalues := n1, klines := cache_set later cacheKey klineData ttl k1\<rparr>))"

text \<open>
  What \<open>calculatePeriodReturns\<close> asks of the runtime. \<open>date_parse\<close> is
  \<open>new Date(string)\<close> read as milliseconds, \<open>None\<close> for an invalid date.
  \<open>days_before t n\<close> is the time of \<open>d\<close> after \<open>d.setDate(d.getDate() - n)\<close> for
  the date \<open>d\<close> of time \<open>t\<close>: the same local time of day \<open>n\<close> calendar days
  earlier. \<open>num_sub\<close>, \<open>num_div\<close> and \<open>num_mul\<close> are \<open>-\<close>, \<open>/\<close> and \<open>*\<close> on
  doubles, with the operands the source gives them (the second one is always the
  value of a record or the literal 100), and \<open>to_fixed2 x\<close> is
  \<open>parseFloat(x.toFixed(2))\<close>. The theorems below hold for every runtime.
\<close>

record runtime =
  date_parse :: "string \<Rightarrow> int option"
  days_before :: "int \<Rightarrow> nat \<Rightarrow> int"
  num_sub :: "rat \<Rightarrow> rat \<Rightarrow> number"
  num_div :: "number \<Rightarrow> rat \<Rightarrow> number"
  num_mul :: "number \<Rightarrow> rat \<Rightarrow> number"
  to_fixed2 :: "number \<Rightarrow> number"

text \<open>
  The literal \<open>periods\<close>: period code, label and days. The labels are Chinese
  (near-1-week, near-1-month, near-3-months, near-6-months, near-1-year), given here
  by their UTF-8 bytes.
\<close>

definition period_table :: "(string \<times> string \<times> nat) list" where
  "period_table =
     [(''Z'', [CHR 0xE8, CHR 0xBF, CHR 0x91, CHR ''1'', CHR 0xE5, CHR 0x91, CHR 0xA8], 7),
      (''Y'', [CHR 0xE8, CHR 0xBF, CHR 0x91, CHR ''1'', CHR 0xE6, CHR 0x9C, CHR 0x88], 30),
      (''3Y'', [CHR 0xE8, CHR 0xBF, CHR 0x91, CHR ''3'', CHR 0xE6, CHR 0x9C, CHR 0x88], 90),
      (''6Y'', [CHR 0xE8, CHR 0xBF, CHR 0x91, CHR ''6'', CHR 0xE6, CHR 0x9C, CHR 0x88], 180),
      (''1N'', [CHR 0xE8, CHR 0xBF, CHR 0x91, CHR ''1'', CHR 0xE5, CHR 0xB9, CHR 0xB4], 365)]"

text \<open>
  \<open>recordDate <= targetDate\<close>, false for an invalid date. \<open>targetDate\<close> is the
  current time moved back by the days of the window with \<open>setDate\<close>; the clock,
  read once for each window, is taken to show the same time \<open>today\<close> for all five.
  The loop over \<open>history\<close> that stops at the first such record is \<open>find\<close>.
\<close>

definition on_or_before :: "(string \<Rightarrow> int option) \<Rightarrow> int \<Rightarrow> NetValueRecord \<Rightarrow> bool" where
  "on_or_before parse target r =
     (case parse (date r) of None \<Rightarrow> False | Some t \<Rightarrow> t \<le> target)"

definition period_results ::
  "runtime \<Rightarrow> int \<Rightarrow> NetValueRecord list \<Rightarrow> NetValueRecord \<Rightarrow> PeriodReturn list" where
  "period_results rt today history latest =
     foldl (\<lambda>results (p, l, n).
        let targetDate = days_before rt today n in
        case find (on_or_before (date_parse rt) targetDate) history of
          None \<Rightarrow> results
        | Some found \<Rightarrow>
            if netValue found > 0
            then results @
              [\<lparr>period = p, label = l, days = n,
                change = to_fixed2 rt
                  (num_mul rt
                    (num_div rt (num_sub rt (netValue latest) (netValue found)) (netValue found))
                    100)\<rparr>]
            else results)
       [] period_table"

definition calculatePeriodReturns ::
  "int \<Rightarrow> (int \<Rightarrow> string) \<Rightarrow> runtime \<Rightarrow> int \<Rightarrow> int \<Rightarrow> script_load \<Rightarrow>
   string \<Rightarrow> stores \<Rightarrow> PeriodReturn list \<times> stores" where
  "calculatePeriodReturns ttl fmt rt now later reply fc s =
     (let cacheKey = period_key fc in
      case cache_get now cacheKey (periods s) of
        (Some cached, p1) \<Rightarrow> (cached, s\<lparr>periods := p1\<rparr>)
      | (None, p1) \<Rightarrow>
          let (history, n1) = fetchNetValueHistoryFast ttl fmt now later reply fc 400 (netvalues s);
              s1 = s\<lparr>periods := p1, netvalues := n1\<rparr>
          in if length history < 2 then ([], s1)
             else
               let latest = hd history in
               if netValue latest \<le> 0 then ([], s1)
               else
                 let results = period_results rt later history latest
                 in (results, s1\<lparr>periods := cache_set later cacheKey results ttl p1\<rparr>))"

text \<open>
  The words of the specification, for comparison with the code: the most recent
  record dated on or before a target (among the records on or before the target,
  one with the greatest timestamp), the percentage change from an old value to a new
  one as the runtime computes it in doubles, and the entry of one window.
\<close>

definition stamp :: "(string \<Rightarrow> int option) \<Rightarrow> NetValueRecord \<Rightarrow> int" where
  "stamp parse r = (case parse (date r) of None \<Rightarrow> 0 | Some t \<Rightarrow> t)"

fun latest_on_or_before ::
  "(string \<Rightarrow> int option) \<Rightarrow> int \<Rightarrow> NetValueRecord list \<Rightarrow> NetValueRecord option" where
  "latest_on_or_before parse target [] = None"
| "latest_on_or_before parse target (r # rs) =
     (case latest_on_or_before parse target rs of
        None \<Rightarrow> if on_or_before parse target r then Some r else None
      | Some b \<Rightarrow>
          if on_or_before parse target r \<and> stamp parse b \<le> stamp parse r then Some r
          else Some b)"

definition percent_change :: "runtime \<Rightarrow> rat \<Rightarrow> rat \<Rightarrow> number" where
  "percent_change rt old new = num_mul rt (num_div rt (num_sub rt new old) old) 100"

definition window_entry ::
  "runtime \<Rightarrow> int \<Rightarrow> NetValueRecord list \<Rightarrow> string \<times> string \<times> nat \<Rightarrow> PeriodReturn option" where
  "window_entry rt today history w =
     (case w of (p, l, n) \<Rightarrow>
        (case latest_on_or_before (date_parse rt) (days_before rt today n) history of
           None \<Rightarrow> None
         | Some r \<Rightarrow>
             if netValue r > 0
             then Some \<lparr>period = p, label = l, days = n,
                        change = to_fixed2 rt
                          (percent_change rt (netValue r) (netValue (hd history)))\<rparr>
             else None))"

text \<open>A history is ordered newest first: every date is valid and none is followed by a later one.\<close>

definition newest_first :: "(string \<Rightarrow> int option) \<Rightarrow> NetValueRecord list \<Rightarrow> bool" where
  "newest_first parse history \<longleftrightarrow>
     list_all (\<lambda>r. parse (date r) \<noteq> None) history \<and>
     sorted_wrt (\<lambda>a b. stamp parse b \<le> stamp parse a) history"

text \<open>
  Example data: the dates used below with their timestamps (UTC midnight), the
  history of the specification's example (latest value 1.10, a record eight days
  earlier at 1.00), a history whose oldest record has the value 0, and stores that
  hold a history for fund 000001 and 400 days.
\<close>

definition example_parse :: "string \<Rightarrow> int option" where
  "example_parse =
     map_of [(''2024-03-10'', 19792 * 86400000), (''2024-03-02'', 19784 * 86400000),
             (''2024-02-08'', 19761 * 86400000)]"

text \<open>
  Double arithmetic for the examples, on exact values: \<open>double_of\<close> rounds a
  rational to the nearest double, a tie going to the even significand, with 53 bits
  above \<open>2 ^ - 1022\<close>, multiples of \<open>2 ^ - 1074\<close> below, and infinity from
  \<open>2 ^ 1024\<close> on (\<open>exponent x\<close> is the integer part of the binary logarithm of
  \<open>\<bar>x\<bar>\<close>). \<open>nearest\<close> reads the value of a record, written in decimal and within
  the range of doubles, as the double nearest to it. The operations round the exact
  result and follow the rules for the infinities and \<open>NaN\<close>; \<open>double_toFixed2\<close>
  takes the integer \<open>n\<close> nearest to 100 times the absolute value, the larger one
  of two, and reads the decimal string of \<open>n / 100\<close> back as a double (from
  \<open>10 ^ 21\<close> on and on a number that is not finite, \<open>toFixed\<close> prints the number
  itself).
\<close>

definition pow2 :: "int \<Rightarrow> rat" where
  "pow2 e = (if 0 \<le> e then 2 ^ nat e else 1 / 2 ^ nat (- e))"

function bit_length :: "int \<Rightarrow> int" where
  "bit_length k = (if k \<le> 0 then 0 else 1 + bit_length (k div 2))"
  by pat_completeness auto

termination
  by (relation "measure nat") auto

declare bit_length.simps [simp del]

definition exponent :: "rat \<Rightarrow> int" where
  "exponent x =
     (let (p, q) = quotient_of \<bar>x\<bar>;
          e = bit_length p - bit_length q
      in if pow2 e \<le> \<bar>x\<bar> then e else e - 1)"

definition round_even :: "rat \<Rightarrow> int" where
  "round_even q =
     (let n = \<lfloor>q\<rfloor>; f = q - of_int n
      in if f < 1 / 2 then n else if 1 / 2 < f then n + 1 else if even n then n else n + 1)"

definition double_of :: "rat \<Rightarrow> number" where
  "double_of x =
     (if x = 0 then Num 0
      else
        let u = pow2 (max (exponent x) (- 1022) - 52);
            r = of_int (round_even (x / u)) * u
        in if 1024 \<le> exponent r then (if 0 < r then Infinity else NegInfinity) else Num r)"

definition nearest :: "rat \<Rightarrow> rat" where
  "nearest x = (case double_of x of Num r \<Rightarrow> r | _ \<Rightarrow> x)"

definition double_sub :: "rat \<Rightarrow> rat \<Rightarrow> number" where
  "double_sub a b = double_of (nearest a - nearest b)"

definition double_div :: "number \<Rightarrow> rat \<Rightarrow> number" where
  "double_div a b =
     (case a of
        Num x \<Rightarrow>
          if nearest b = 0 then (if 0 < x then Infinity else if x < 0 then NegInfinity else NaN)
          else double_of (x / nearest b)
      | Infinity \<Rightarrow> if 0 \<le> nearest b then Infinity else NegInfinity
      | NegInfinity \<Rightarrow> if 0 \<le> nearest b then NegInfinity else Infinity
      | NaN \<Rightarrow> NaN)"

definition double_mul :: "number \<Rightarrow> rat \<Rightarrow> number" where
  "double_mul a b =
     (case a of
        Num x \<Rightarrow> double_of (x * nearest b)
      | Infinity \<Rightarrow>
          if 0 < nearest b then Infinity else if nearest b < 0 then NegInfinity else NaN
      | NegInfinity \<Rightarrow>
          if 0 < nearest b then NegInfinity else if nearest b < 0 then Infinity else NaN
      | NaN \<Rightarrow> NaN)"

definition double_toFixed2 :: "number \<Rightarrow> number" where
  "double_toFixed2 a =
     (case a of
        Num x \<Rightarrow>
          if 10 ^ 21 \<le> \<bar>x\<bar> then Num x
          else double_of (sgn x * of_int \<lfloor>\<bar>x\<bar> * 100 + 1 / 2\<rfloor> / 100)
      | _ \<Rightarrow> a)"

text \<open>
  The runtime of the examples: the dates above, a time zone without daylight saving
  (a calendar day is 86400000 ms), and double arithmetic.
\<close>

definition example_runtime :: runtime where
  "example_runtime =
     \<lparr>date_parse = example_parse,
      days_before = (\<lambda>t n. t - int n * 86400000),
      num_sub = double_sub, num_div = double_div, num_mul = double_mul,
      to_fixed2 = double_toFixed2\<rparr>"

definition example_history :: "NetValueRecord list" where
  "example_history =
     [\<lparr>date = ''2024-03-10'', netValue = 11 / 10, totalNetValue = 11 / 10, changeRate = 0\<rparr>,
      \<lparr>date = ''2024-03-02'', netValue = 1, totalNetValue = 1, changeRate = 0\<rparr>]"

definition zero_history :: "NetValueRecord list" where
  "zero_history =
     [\<lparr>date = ''2024-03-10'', netValue = 1, totalNetValue = 1, changeRate = 0\<rparr>,
      \<lparr>date = ''2024-03-02'', netValue = 3, totalNetValue = 3, changeRate = 0\<rparr>,
      \<lparr>date = ''2024-02-08'', netValue = 0, totalNetValue = 0, changeRate = 0\<rparr>]"

definition example_stores :: "NetValueRecord list \<Rightarrow> stores" where
  "example_stores h =
     \<lparr>netvalues = [netvalue_key ''000001'' 400 \<mapsto> (h, 19792 * 86400000 + 5400000)],
      klines = Map.empty, periods = Map.empty\<rparr>"

text \<open>The projection of a record to a (time, value, change) triple.\<close>

definition to_kline :: "NetValueRecord \<Rightarrow> SimpleKLineData" where
  "to_kline item =
     \<lparr>kl_time = date item, kl_value = netValue item, kl_change = changeRate item,
      kl_volume = None\<rparr>"

lemma latest_on_or_before_None:
  "latest_on_or_before parse target rs = None \<longleftrightarrow>
   (\<forall>r \<in> set rs. \<not> on_or_before parse target r)"
  by (induction rs) (auto split: option.splits if_splits)

lemma latest_on_or_before_Some:
  "latest_on_or_before parse target rs = Some r \<Longrightarrow>
   r \<in> set rs \<and> on_or_before parse target r \<and>
   (\<forall>r' \<in> set rs. on_or_before parse target r' \<longrightarrow> stamp parse r' \<le> stamp parse r)"
proof (induction rs arbitrary: r)
  case Nil
  then show ?case by simp
next
  case (Cons a rs)
  show ?case
  proof (cases "latest_on_or_before parse target rs")
    case None
    with Cons.prems have r: "r = a" "on_or_before parse target a"
      by (auto split: if_splits)
    from None have "\<forall>r' \<in> set rs. \<not> on_or_before parse target r'"
      by (simp add: latest_on_or_before_None)
    with r show ?thesis by auto
  next
    case (Some b)
    note IH = Cons.IH [OF Some]
    show ?thesis
    proof (cases "on_or_before parse target a \<and> stamp parse b \<le> stamp parse a")
      case True
      with Some Cons.prems have "r = a" by simp
      with True IH show ?thesis by auto
    next
      case False
      with Some Cons.prems have "r = b" by auto
      with False IH show ?thesis by auto
    qed
  qed
qed

lemma find_is_latest:
  assumes "newest_first parse rs"
  shows "find (on_or_before parse target) rs = latest_on_or_before parse target rs"
  using assms
proof (induction rs)
  case Nil
  then show ?case by simp
next
  case (Cons a rs)
  then have IH: "find (on_or_before parse target) rs = latest_on_or_before parse target rs"
    and newer: "\<forall>b \<in> set rs. stamp parse b \<le> stamp parse a"
    by (auto simp: newest_first_def)
  show ?case
  proof (cases "on_or_before parse target a")
    case True
    then show ?thesis
      using newer latest_on_or_before_Some [of parse target rs]
      by (auto split: option.splits)
  next
    case False
    then show ?thesis
      using IH by (auto split: option.splits)
  qed
qed

lemma foldl_push:
  "foldl (\<lambda>acc x. case f x of None \<Rightarrow> acc | Some y \<Rightarrow> acc @ [y]) acc xs =
   acc @ List.map_filter f xs"
  by (induction xs arbitrary: acc) (auto simp: List.map_filter_simps split: option.splits)

lemma period_results_eq:
  assumes "newest_first (date_parse rt) history" and "latest = hd history"
  shows "period_results rt today history latest =
         List.map_filter (window_entry rt today history) period_table"
proof -
  have body: "(\<lambda>results (p, l, n).
        let targetDate = days_before rt today n in
        case find (on_or_before (date_parse rt) targetDate) history of
          None \<Rightarrow> results
        | Some found \<Rightarrow>
            if netValue found > 0
            then results @
              [\<lparr>period = p, label = l, days = n,
                change = to_fixed2 rt
                  (num_mul rt
                    (num_div rt (num_sub rt (netValue latest) (netValue found)) (netValue found))
                    100)\<rparr>]
            else results) =
     (\<lambda>acc w. case window_entry rt today history w of None \<Rightarrow> acc | Some e \<Rightarrow> acc @ [e])"
    by (intro ext)
       (auto simp: window_entry_def percent_change_def Let_def find_is_latest [OF assms(1)]
         assms(2) split: option.splits prod.splits)
  show ?thesis
    unfolding period_results_def body by (simp add: foldl_push)
qed

text \<open>
  Double arithmetic differs from exact arithmetic on decimals: from 8 to 7.99 the
  exact change is -0.125 percent, which would round to -0.13, and the doubles give
  -0.12; from 1 to 1.10 they give 10.
\<close>

lemma double_rounding_example:
  "to_fixed2 example_runtime (percent_change example_runtime 8 (799 / 100)) =
     double_of (- 12 / 100) \<and>
   double_of (- 12 / 100) \<noteq> double_of (- 13 / 100) \<and>
   (799 / 100 - 8) / 8 * 100 = (- 125 / 1000 :: rat) \<and>
   to_fixed2 example_runtime (percent_change example_runtime 1 (11 / 10)) = Num 10"
  by code_simp

lemma kline_netvalue_keys: "kline_key fc n \<noteq> netvalue_key fc' n'"
  by (simp add: kline_key_def netvalue_key_def)

text \<open>
  C2 (amended). For a history that is ordered newest first, has at least two records
  and a positive latest value, \<open>calculatePeriodReturns\<close> returns, for the windows of
  7, 30, 90, 180 and 365 days in this order, an entry whose change is the percentage
  change from the most recent record dated on or before now minus the window to the
  latest value, as the runtime computes it: the difference, divided by the old value,
  times 100, in double arithmetic, then rounded to two decimals by \<open>toFixed(2)\<close>;
  now minus the window is the current time moved back by that many calendar days
  with \<open>setDate\<close>. A window is left out when there is no such record or when the
  value of that record is not positive.
\<close>

theorem period_returns_amended:
  "fst (cache_get now (period_key fc) (periods s)) = None \<Longrightarrow>
   fst (fetchNetValueHistoryFast ttl fmt now later reply fc 400 (netvalues s)) = history \<Longrightarrow>
   newest_first (date_parse rt) history \<Longrightarrow>
   2 \<le> length history \<Longrightarrow>
   0 < netValue (hd history) \<Longrightarrow>
   fst (calculatePeriodReturns ttl fmt rt now later reply fc s) =
     List.map_filter (window_entry rt later history) period_table \<and>
   map (\<lambda>(p, l, n). n) period_table = [7, 30, 90, 180, 365]"
proof -
  assume miss: "fst (cache_get now (period_key fc) (periods s)) = None"
    and h: "fst (fetchNetValueHistoryFast ttl fmt now later reply fc 400 (netvalues s)) = history"
    and nf: "newest_first (date_parse rt) history"
    and len: "2 \<le> length history"
    and pos: "0 < netValue (hd history)"
  obtain p1 where g: "cache_get now (period_key fc) (periods s) = (None, p1)"
    using miss by (cases "cache_get now (period_key fc) (periods s)") auto
  obtain n1 where f: "fetchNetValueHistoryFast ttl fmt now later reply fc 400 (netvalues s) = (history, n1)"
    using h by (cases "fetchNetValueHistoryFast ttl fmt now later reply fc 400 (netvalues s)") auto
  have "fst (calculatePeriodReturns ttl fmt rt now later reply fc s) =
      period_results rt later history (hd history)"
    using len pos by (simp add: calculatePeriodReturns_def g f Let_def)
  then show ?thesis
    by (simp add: period_results_eq [OF nf refl] period_table_def)
qed

text \<open>
  C2 as stated fails on a history whose record of 2024-02-08 has the value 0, read on
  2024-03-10: the record is dated on or before now minus 30 days, yet the result has
  no 30-day entry; and the 7-day entry is the double nearest to -66.67, the rounded
  value, not the percentage change from 3 to 1 itself.
\<close>

theorem period_returns_counterexample:
  "fst (calculatePeriodReturns 1800000 (\<lambda>t. '''') example_runtime
          (19792 * 86400000 + 3600000) (19792 * 86400000 + 3600000) LoadTimeout ''000001''
          (example_stores zero_history)) =
     [\<lparr>period = ''Z'',
       label = [CHR 0xE8, CHR 0xBF, CHR 0x91, CHR ''1'', CHR 0xE5, CHR 0x91, CHR 0xA8],
       days = 7, change = double_of (- 6667 / 100)\<rparr>] \<and>
   newest_first (date_parse example_runtime) zero_history \<and>
   latest_on_or_before (date_parse example_runtime)
       (days_before example_runtime (19792 * 86400000 + 3600000) 30) zero_history =
     Some \<lparr>date = ''2024-02-08'', netValue = 0, totalNetValue = 0, changeRate = 0\<rparr> \<and>
   double_of (- 6667 / 100) \<noteq> percent_change example_runtime 3 1 \<and>
   (1 - 3) / 3 * 100 = (- 200 / 3 :: rat)"
  by code_simp

theorem period_returns_amended_witness:
  "newest_first (date_parse example_runtime) example_history \<and>
   length example_history = 2 \<and>
   netValue (hd example_history) = 11 / 10 \<and>
   fst (calculatePeriodReturns 1800000 (\<lambda>t. '''') example_runtime
          (19792 * 86400000 + 3600000) (19792 * 86400000 + 3600000) LoadTimeout ''000001''
          (example_stores example_history)) =
     [\<lparr>period = ''Z'',
       label = [CHR 0xE8, CHR 0xBF, CHR 0x91, CHR ''1'', CHR 0xE5, CHR 0x91, CHR 0xA8],
       days = 7, change = Num 10\<rparr>]"
proof -
  let ?now = "19792 * 86400000 + 3600000 :: int"
  let ?s = "example_stores example_history"
  have miss: "fst (cache_get ?now (period_key ''000001'') (periods ?s)) = None"
    by code_simp
  have hist: "fst (fetchNetValueHistoryFast 1800000 (\<lambda>t. '''') ?now ?now LoadTimeout ''000001'' 400
      (netvalues ?s)) = example_history"
    by code_simp
  have nf: "newest_first (date_parse example_runtime) example_history"
    by code_simp
  have len: "2 \<le> length example_history" "length example_history = 2"
    and pos: "0 < netValue (hd example_history)" "netValue (hd example_history) = 11 / 10"
    by code_simp+
  have spec: "List.map_filter (window_entry example_runtime ?now example_history) period_table =
     [\<lparr>period = ''Z'',
       label = [CHR 0xE8, CHR 0xBF, CHR 0x91, CHR ''1'', CHR 0xE5, CHR 0x91, CHR 0xA8],
       days = 7, change = Num 10\<rparr>]"
    by code_simp
  from period_returns_amended [OF miss hist nf len(1) pos(1)]
  have "fst (calculatePeriodReturns 1800000 (\<lambda>t. '''') example_runtime ?now ?now LoadTimeout ''000001'' ?s) =
     List.map_filter (window_entry example_runtime ?now example_history) period_table"
    by simp
  with spec nf len(2) pos(2) show ?thesis
    by simp
qed

lemma cache_get_hit: "fst (cache_get now key c) = Some v \<Longrightarrow> cache_get now key c = (Some v, c)"
  by (auto simp: cache_get_def split: option.splits if_splits)

lemma cache_get_after_set:
  "t \<le> later + ttl \<Longrightarrow> cache_get t key (cache_set later key v ttl c) =
     (Some v, cache_set later key v ttl c)"
  by (simp add: cache_get_def cache_set_def)

text \<open>
  C9. When the kline entry is missing or expired and the history of the same code and
  day count is cached, \<open>fetchSimpleKLineData\<close> returns exactly the records of the
  cached history, each projected to its (time, value, change) triple, in reverse
  order; if the history is ordered newest first under any chronological reading of
  the dates, the result is ascending. The result is cached under the kline key, which
  differs from the key of the history; the history entry and the period entries are
  untouched, and a call at any time \<open>t\<close> up to the expiry of the new entry returns
  the same series whatever has become of the history entries.
\<close>

theorem kline_projection:
  "fst (cache_get now (kline_key fc n) (klines s)) = None \<Longrightarrow>
   fst (cache_get now (netvalue_key fc n) (netvalues s)) = Some history \<Longrightarrow>
   (case fetchSimpleKLineData ttl fmt now later reply fc n s of
      (klineData, s') \<Rightarrow>
        klineData = rev (map to_kline history) \<and>
        map kl_time klineData = rev (map date history) \<and>
        map kl_value klineData = rev (map netValue history) \<and>
        map kl_change klineData = rev (map changeRate history) \<and>
        (sorted_wrt (\<lambda>a b. chrono (date b) \<le> (chrono (date a) :: int)) history \<longrightarrow>
           sorted_wrt (\<lambda>a b. chrono (kl_time a) \<le> chrono (kl_time b)) klineData) \<and>
        klines s' = cache_set later (kline_key fc n) klineData ttl
                      (snd (cache_get now (kline_key fc n) (klines s))) \<and>
        netvalues s' = netvalues s \<and>
        periods s' = periods s \<and>
        kline_key fc n \<noteq> netvalue_key fc n \<and>
        (t \<le> later + ttl \<longrightarrow>
           fst (fetchSimpleKLineData ttl fmt t later' reply' fc n (s'\<lparr>netvalues := other\<rparr>))
             = klineData))"
proof -
  assume miss: "fst (cache_get now (kline_key fc n) (klines s)) = None"
    and hit: "fst (cache_get now (netvalue_key fc n) (netvalues s)) = Some history"
  obtain k1 where g: "cache_get now (kline_key fc n) (klines s) = (None, k1)"
    using miss by (cases "cache_get now (kline_key fc n) (klines s)") auto
  have h: "fetchNetValueHistoryFast ttl fmt now later reply fc n (netvalues s) =
      (history, netvalues s)"
    by (simp add: fetchNetValueHistoryFast_def cache_get_hit [OF hit])
  let ?k = "rev (map to_kline history)"
  have res: "fetchSimpleKLineData ttl fmt now later reply fc n s =
      (?k, s\<lparr>netvalues := netvalues s, klines := cache_set later (kline_key fc n) ?k ttl k1\<rparr>)"
    by (simp add: fetchSimpleKLineData_def g h Let_def to_kline_def [abs_def])
  have again: "fst (fetchSimpleKLineData ttl fmt t later' reply' fc n s2) = ?k"
    if "klines s2 = cache_set later (kline_key fc n) ?k ttl k1" and "t \<le> later + ttl" for s2
    by (simp add: fetchSimpleKLineData_def that cache_get_after_set)
  have sorted: "sorted_wrt (\<lambda>a b. chrono (kl_time a) \<le> chrono (kl_time b)) ?k"
    if "sorted_wrt (\<lambda>a b. chrono (date b) \<le> (chrono (date a) :: int)) history"
    using that by (simp add: sorted_wrt_rev sorted_wrt_map to_kline_def)
  show ?thesis
    unfolding res using again sorted
    by (simp add: g rev_map to_kline_def comp_def kline_netvalue_keys)
qed

theorem kline_projection_witness:
  "fst (fetchSimpleKLineData 1800000 (\<lambda>t. '''') (19792 * 86400000 + 3600000)
         (19792 * 86400000 + 3600000) LoadTimeout ''000001'' 400 (example_stores zero_history)) =
     [\<lparr>kl_time = ''2024-02-08'', kl_value = 0, kl_change = 0, kl_volume = None\<rparr>,
      \<lparr>kl_time = ''2024-03-02'', kl_value = 3, kl_change = 0, kl_volume = None\<rparr>,
      \<lparr>kl_time = ''2024-03-10'', kl_value = 1, kl_change = 0, kl_volume = None\<rparr>] \<and>
   fst (fetchSimpleKLineData 1800000 (\<lambda>t. '''') (19792 * 86400000 + 5400000)
         (19792 * 86400000 + 5400000) LoadTimeout ''000001'' 400
         ((snd (fetchSimpleKLineData 1800000 (\<lambda>t. '''') (19792 * 86400000 + 3600000)
              (19792 * 86400000 + 3600000) LoadTimeout ''000001'' 400
              (example_stores zero_history)))\<lparr>netvalues := Map.empty\<rparr>)) =
     [\<lparr>kl_time = ''2024-02-08'', kl_value = 0, kl_change = 0, kl_volume = None\<rparr>,
      \<lparr>kl_time = ''2024-03-02'', kl_value = 3, kl_change = 0, kl_volume = None\<rparr>,
      \<lparr>kl_time = ''2024-03-10'', kl_value = 1, kl_change = 0, kl_volume = None\<rparr>]"
proof -
  let ?now = "19792 * 86400000 + 3600000 :: int"
  let ?t = "19792 * 86400000 + 5400000 :: int"
  let ?s = "example_stores zero_history"
  let ?r = "fetchSimpleKLineData 1800000 (\<lambda>t. '''') ?now ?now LoadTimeout ''000001'' 400 ?s"
  have miss: "fst (cache_get ?now (kline_key ''000001'' 400) (klines ?s)) = None"
    by code_simp
  have hit: "fst (cache_get ?now (netvalue_key ''000001'' 400) (netvalues ?s)) = Some zero_history"
    by code_simp
  have within: "?t \<le> ?now + 1800000"
    by simp
  from kline_projection [OF miss hit, where fmt = "\<lambda>t. ''''" and later = ?now
      and reply = LoadTimeout and chrono = "\<lambda>d. 0" and other = Map.empty
      and later' = ?t and reply' = LoadTimeout and ttl = 1800000 and t = ?t] within
  have "fst ?r = rev (map to_kline zero_history) \<and>
      fst (fetchSimpleKLineData 1800000 (\<lambda>t. '''') ?t ?t LoadTimeout ''000001'' 400
             ((snd ?r)\<lparr>netvalues := Map.empty\<rparr>)) = fst ?r"
    by (auto simp: split_beta)
  moreover have "rev (map to_kline zero_history) =
     [\<lparr>kl_time = ''2024-02-08'', kl_value = 0, kl_change = 0, kl_volume = None\<rparr>,
      \<lparr>kl_time = ''2024-03-02'', kl_value = 3, kl_change = 0, kl_volume = None\<rparr>,
      \<lparr>kl_time = ''2024-03-10'', kl_value = 1, kl_change = 0, kl_volume = None\<rparr>]"
    by code_simp
  ultimately show ?thesis
    by (simp only:)
qed

section \<open>Fetchers that fail soft (market indices, fund ranking, global indices)\<close>

text \<open>
  The payloads of these feeds have the type \<open>any\<close>: they are modelled as JavaScript
  values built from JSON, together with \<open>undefined\<close> and \<open>NaN\<close>, which reading a
  missing property and dividing a non-number produce. Numbers are rationals (see the
  section on the history). The result lists are lists of such values: the objects
  the fetchers build.
\<close>

datatype json =
  JUndefined | JNull | JNaN | JBool bool | JNum rat | JStr string
| JArr "json list" | JObj "(string \<times> json) list"

text \<open>Truthiness, and \<open>a || b\<close>.\<close>

fun truthy :: "json \<Rightarrow> bool" where
  "truthy JUndefined = False"
| "truthy JNull = False"
| "truthy JNaN = False"
| "truthy (JBool b) = b"
| "truthy (JNum r) = (r \<noteq> 0)"
| "truthy (JStr s) = (s \<noteq> [])"
| "truthy (JArr xs) = True"
| "truthy (JObj kvs) = True"

definition js_or :: "json \<Rightarrow> json \<Rightarrow> json" where
  "js_or a b = (if truthy a then a else b)"

text \<open>
  Reading a property, \<open>v.p\<close>, for the property names this module reads (\<open>data\<close>,
  \<open>diff\<close>, \<open>f2\<close>, \<open>f3\<close>, \<open>f4\<close>, \<open>f12\<close>, \<open>f14\<close>): a \<open>TypeError\<close> on
  \<open>undefined\<close> and \<open>null\<close>, the member of an object (the last one of that name),
  \<open>undefined\<close> on every other value. \<open>opt_prop\<close> is the optional chain \<open>v?.p\<close>.
\<close>

fun get_prop :: "string \<Rightarrow> json \<Rightarrow> error + json" where
  "get_prop p JUndefined = Inl (Thrown ''TypeError'')"
| "get_prop p JNull = Inl (Thrown ''TypeError'')"
| "get_prop p (JObj kvs) = Inr (case map_of (rev kvs) p of None \<Rightarrow> JUndefined | Some v \<Rightarrow> v)"
| "get_prop p v = Inr JUndefined"

definition opt_prop :: "string \<Rightarrow> json \<Rightarrow> json" where
  "opt_prop p v = (case get_prop p v of Inl e \<Rightarrow> JUndefined | Inr x \<Rightarrow> x)"

text \<open>
  Exceptions are values: \<open>Inl\<close> is a throw. \<open>try_bind\<close> sequences two steps,
  \<open>map_throw\<close> is a callback applied to the elements of an array in order, which
  stops at the first throw, and \<open>array_map\<close> is \<open>v.map(f)\<close>: only an array has a
  callable \<open>map\<close>.
\<close>

definition try_bind :: "error + 'a \<Rightarrow> ('a \<Rightarrow> error + 'b) \<Rightarrow> error + 'b" where
  "try_bind m f = (case m of Inl e \<Rightarrow> Inl e | Inr x \<Rightarrow> f x)"

fun map_throw :: "('a \<Rightarrow> error + 'b) \<Rightarrow> 'a list \<Rightarrow> error + 'b list" where
  "map_throw f [] = Inr []"
| "map_throw f (x # xs) =
     try_bind (f x) (\<lambda>y. try_bind (map_throw f xs) (\<lambda>ys. Inr (y # ys)))"

definition array_map :: "(json \<Rightarrow> error + json) \<Rightarrow> json \<Rightarrow> error + json list" where
  "array_map f v = (case v of JArr xs \<Rightarrow> map_throw f xs | _ \<Rightarrow> Inl (Thrown ''TypeError''))"

text \<open>
  What \<open>fetch(url)\<close> followed by \<open>response.json()\<close> yields: the request fails, the
  body is not JSON, or a value.
\<close>

datatype http_reply = NetworkFailure | BadBody | Body json

text \<open>The callbacks of \<open>data.data.diff.map\<close> in the two fetchers.\<close>

definition market_item :: "json \<Rightarrow> error + json" where
  "market_item item =
     try_bind (get_prop ''f12'' item) (\<lambda>f12.
     try_bind (get_prop ''f14'' item) (\<lambda>f14.
     try_bind (get_prop ''f2'' item) (\<lambda>f2.
     try_bind (get_prop ''f4'' item) (\<lambda>f4.
     try_bind (get_prop ''f3'' item) (\<lambda>f3.
       Inr (JObj [(''code'', f12), (''name'', f14), (''current'', f2), (''change'', f4),
                  (''changePercent'', f3)]))))))"

definition ranking_item :: "json \<Rightarrow> error + json" where
  "ranking_item item =
     try_bind (get_prop ''f12'' item) (\<lambda>f12.
     try_bind (get_prop ''f14'' item) (\<lambda>f14.
     try_bind (get_prop ''f2'' item) (\<lambda>f2.
     try_bind (get_prop ''f3'' item) (\<lambda>f3.
       Inr (JObj [(''code'', f12), (''name'', f14), (''netValue'', js_or f2 (JNum 0)),
                  (''dayChange'', js_or f3 (JNum 0))])))))"

text \<open>
  The body of the \<open>try\<close> block the two fetchers share, up to the callback: \<open>Inl\<close>
  is a throw (caught by the \<open>catch\<close>), \<open>Inr None\<close> the early \<open>return []\<close> when
  \<open>data?.data?.diff\<close> is falsy, \<open>Inr (Some items)\<close> the mapped list.
\<close>

definition fetch_items :: "(json \<Rightarrow> error + json) \<Rightarrow> http_reply \<Rightarrow> error + json list option" where
  "fetch_items item_of reply =
     (case reply of
        NetworkFailure \<Rightarrow> Inl (Thrown ''fetch'')
      | BadBody \<Rightarrow> Inl (Thrown ''json'')
      | Body data \<Rightarrow>
          if \<not> truthy (opt_prop ''diff'' (opt_prop ''data'' data)) then Inr None
          else
            try_bind (get_prop ''data'' data) (\<lambda>d.
            try_bind (get_prop ''diff'' d) (\<lambda>diff.
            try_bind (array_map item_of diff) (\<lambda>items. Inr (Some items)))))"

text \<open>
  The fetchers return the outcome of their promise (\<open>Inl\<close> would be a rejection) and
  the cache. \<open>ttl\<close> is \<open>CACHE_TTL.MARKET_INDEX\<close>; the ranking uses the literal 30000.
\<close>

definition fetchMarketIndicesFast ::
  "int \<Rightarrow> int \<Rightarrow> int \<Rightarrow> http_reply \<Rightarrow> json list cache \<Rightarrow> (error + json list) \<times> json list cache" where
  "fetchMarketIndicesFast ttl now later reply c =
     (let cacheKey = ''market_indices'' in
      case cache_get now cacheKey c of
        (Some cached, c1) \<Rightarrow> (Inr cached, c1)
      | (None, c1) \<Rightarrow>
          (case fetch_items market_item reply of
             Inl e \<Rightarrow> (Inr [], c1)
           | Inr None \<Rightarrow> (Inr [], c1)
           | Inr (Some indices) \<Rightarrow> (Inr indices, cache_set later cacheKey indices ttl c1)))"

definition fetchFundRankingFast ::
  "nat \<Rightarrow> nat \<Rightarrow> int \<Rightarrow> int \<Rightarrow> http_reply \<Rightarrow> json list cache \<Rightarrow>
   (error + json list) \<times> json list cache" where
  "fetchFundRankingFast ord pageSize now later reply c =
     (let cacheKey = ''ranking_'' @ num_str ord @ ''_'' @ num_str pageSize in
      case cache_get now cacheKey c of
        (Some cached, c1) \<Rightarrow> (Inr cached, c1)
      | (None, c1) \<Rightarrow>
          (case fetch_items ranking_item reply of
             Inl e \<Rightarrow> (Inr [], c1)
           | Inr None \<Rightarrow> (Inr [], c1)
           | Inr (Some items) \<Rightarrow> (Inr items, cache_set later cacheKey items 30000 c1)))"

text \<open>
  \<open>fetchGlobalIndices\<close> loads a script: setting it up throws, or the 8-second timer
  fires, or the script fails to load, or the script calls the callback with a value.
\<close>

datatype jsonp_reply = JsonpSetupError | JsonpTimeout | JsonpError | JsonpCallback json

text \<open>
  \<open>ToNumber\<close>, as applied by \<open>>\<close> and \<open>/\<close>; \<open>None\<close> is \<open>NaN\<close>. The conversion of
  strings, arrays and objects belongs to the runtime and is the parameter \<open>coerce\<close>.
\<close>

definition to_number :: "(json \<Rightarrow> rat option) \<Rightarrow> json \<Rightarrow> rat option" where
  "to_number coerce v =
     (case v of
        JNum r \<Rightarrow> Some r
      | JBool b \<Rightarrow> Some (if b then 1 else 0)
      | JNull \<Rightarrow> Some 0
      | JUndefined \<Rightarrow> None
      | JNaN \<Rightarrow> None
      | _ \<Rightarrow> coerce v)"

definition div100 :: "(json \<Rightarrow> rat option) \<Rightarrow> json \<Rightarrow> json" where
  "div100 coerce v = (case to_number coerce v of None \<Rightarrow> JNaN | Some r \<Rightarrow> JNum (r / 100))"

definition gt0 :: "(json \<Rightarrow> rat option) \<Rightarrow> json \<Rightarrow> bool" where
  "gt0 coerce v = (case to_number coerce v of None \<Rightarrow> False | Some r \<Rightarrow> r > 0)"

text \<open>
  The literal \<open>indices\<close> of \<open>fetchGlobalIndices\<close>: code, name and region. The names
  are Chinese, given by their UTF-8 bytes.
\<close>

definition global_index_table :: "(string \<times> string \<times> string) list" where
  "global_index_table =
     [(''1.000001'', [CHR 0xE4, CHR 0xB8, CHR 0x8A, CHR 0xE8, CHR 0xAF, CHR 0x81, CHR 0xE6, CHR 0x8C, CHR 0x87, CHR 0xE6, CHR 0x95, CHR 0xB0], ''cn''),
      (''0.399001'', [CHR 0xE6, CHR 0xB7, CHR 0xB1, CHR 0xE8, CHR 0xAF, CHR 0x81, CHR 0xE6, CHR 0x88, CHR 0x90, CHR 0xE6, CHR 0x8C, CHR 0x87], ''cn''),
      (''0.399006'', [CHR 0xE5, CHR 0x88, CHR 0x9B, CHR 0xE4, CHR 0xB8, CHR 0x9A, CHR 0xE6, CHR 0x9D, CHR 0xBF, CHR 0xE6, CHR 0x8C, CHR 0x87], ''cn''),
      (''100.HSI'', [CHR 0xE6, CHR 0x81, CHR 0x92, CHR 0xE7, CHR 0x94, CHR 0x9F, CHR 0xE6, CHR 0x8C, CHR 0x87, CHR 0xE6, CHR 0x95, CHR 0xB0], ''hk''),
      (''100.DJIA'', [CHR 0xE9, CHR 0x81, CHR 0x93, CHR 0xE7, CHR 0x90, CHR 0xBC, CHR 0xE6, CHR 0x96, CHR 0xAF], ''us''),
      (''100.NDX'', [CHR 0xE7, CHR 0xBA, CHR 0xB3, CHR 0xE6, CHR 0x96, CHR 0xAF, CHR 0xE8, CHR 0xBE, CHR 0xBE, CHR 0xE5, CHR 0x85, CHR 0x8B], ''us''),
      (''100.SPX'', [CHR 0xE6, CHR 0xA0, CHR 0x87, CHR 0xE6, CHR 0x99, CHR 0xAE, CHR ''5'', CHR ''0'', CHR ''0''], ''us''),
      (''100.N225'', [CHR 0xE6, CHR 0x97, CHR 0xA5, CHR 0xE7, CHR 0xBB, CHR 0x8F, CHR ''2'', CHR ''2'', CHR ''5''], ''asia'')]"

text \<open>
  The callback of \<open>forEach\<close> for an item whose index has an entry \<open>idx\<close> in
  \<open>indices\<close>: \<open>None\<close> when \<open>item.f2 > 0\<close> is false, otherwise the object pushed.
  \<open>global_forEach\<close> runs it over the items with the results so far; an item beyond
  the table is skipped without being read; a throw ends the loop and leaves the
  results pushed so far. \<open>global_callback\<close> is the callback installed on \<open>window\<close>:
  it returns the error its inner \<open>catch\<close> swallowed, if any, and the results.
\<close>

definition global_entry ::
  "(json \<Rightarrow> rat option) \<Rightarrow> string \<times> string \<times> string \<Rightarrow> json \<Rightarrow> error + json option" where
  "global_entry coerce idx item =
     (case idx of (cd, nm, rg) \<Rightarrow>
        try_bind (get_prop ''f2'' item) (\<lambda>f2.
          if gt0 coerce f2 then
            try_bind (get_prop ''f4'' item) (\<lambda>f4.
            try_bind (get_prop ''f3'' item) (\<lambda>f3.
              Inr (Some (JObj [(''name'', JStr nm), (''code'', JStr cd),
                               (''price'', div100 coerce f2), (''change'', div100 coerce f4),
                               (''changePercent'', div100 coerce f3), (''region'', JStr rg)]))))
          else Inr None))"

fun global_forEach ::
  "(json \<Rightarrow> rat option) \<Rightarrow> (string \<times> string \<times> string) list \<Rightarrow> json list \<Rightarrow> json list \<Rightarrow>
   error option \<times> json list" where
  "global_forEach coerce indices [] results = (None, results)"
| "global_forEach coerce [] (item # items) results = global_forEach coerce [] items results"
| "global_forEach coerce (idx # indices) (item # items) results =
     (case global_entry coerce idx item of
        Inl e \<Rightarrow> (Some e, results)
      | Inr None \<Rightarrow> global_forEach coerce indices items results
      | Inr (Some entry) \<Rightarrow> global_forEach coerce indices items (results @ [entry]))"

definition global_callback :: "(json \<Rightarrow> rat option) \<Rightarrow> json \<Rightarrow> error option \<times> json list" where
  "global_callback coerce data =
     (if truthy (opt_prop ''diff'' (opt_prop ''data'' data)) then
        (case try_bind (get_prop ''data'' data) (get_prop ''diff'') of
           Inl e \<Rightarrow> (Some e, [])
         | Inr (JArr items) \<Rightarrow> global_forEach coerce global_index_table items []
         | Inr other \<Rightarrow> (Some (Thrown ''TypeError''), []))
      else (None, []))"

definition getDefaultGlobalIndices :: "json list" where
  "getDefaultGlobalIndices =
     map (\<lambda>(nm, cd, rg).
        JObj [(''name'', JStr nm), (''code'', JStr cd), (''price'', JNum 0), (''change'', JNum 0),
              (''changePercent'', JNum 0), (''region'', JStr rg)])
     [([CHR 0xE4, CHR 0xB8, CHR 0x8A, CHR 0xE8, CHR 0xAF, CHR 0x81, CHR 0xE6, CHR 0x8C, CHR 0x87, CHR 0xE6, CHR 0x95, CHR 0xB0], ''s_sh000001'', ''cn''),
      ([CHR 0xE6, CHR 0xB7, CHR 0xB1, CHR 0xE8, CHR 0xAF, CHR 0x81, CHR 0xE6, CHR 0x88, CHR 0x90, CHR 0xE6, CHR 0x8C, CHR 0x87], ''s_sz399001'', ''cn''),
      ([CHR 0xE6, CHR 0x81, CHR 0x92, CHR 0xE7, CHR 0x94, CHR 0x9F, CHR 0xE6, CHR 0x8C, CHR 0x87, CHR 0xE6, CHR 0x95, CHR 0xB0], ''rt_hkHSI'', ''hk''),
      ([CHR 0xE9, CHR 0x81, CHR 0x93, CHR 0xE7, CHR 0x90, CHR 0xBC, CHR 0xE6, CHR 0x96, CHR 0xAF], ''gb_$dji'', ''us''),
      ([CHR 0xE7, CHR 0xBA, CHR 0xB3, CHR 0xE6, CHR 0x96, CHR 0xAF, CHR 0xE8, CHR 0xBE, CHR 0xBE, CHR 0xE5, CHR 0x85, CHR 0x8B], ''gb_$ixic'', ''us''),
      ([CHR 0xE6, CHR 0x97, CHR 0xA5, CHR 0xE7, CHR 0xBB, CHR 0x8F, CHR ''2'', CHR ''2'', CHR ''5''], ''int_nikkei'', ''asia'')]"

definition fetchGlobalIndices ::
  "int \<Rightarrow> (json \<Rightarrow> rat option) \<Rightarrow> int \<Rightarrow> int \<Rightarrow> jsonp_reply \<Rightarrow> json list cache \<Rightarrow>
   (error + json list) \<times> json list cache" where
  "fetchGlobalIndices ttl coerce now later reply c =
     (let cacheKey = ''global_indices'' in
      case cache_get now cacheKey c of
        (Some cached, c1) \<Rightarrow> (Inr cached, c1)
      | (None, c1) \<Rightarrow>
          (case (case reply of
                   JsonpSetupError \<Rightarrow> Inl (Thrown ''setup'')
                 | JsonpTimeout \<Rightarrow> Inr []
                 | JsonpError \<Rightarrow> Inr []
                 | JsonpCallback data \<Rightarrow> Inr (snd (global_callback coerce data))) of
             Inl e \<Rightarrow> (Inr getDefaultGlobalIndices, c1)
           | Inr results \<Rightarrow>
               if length results = 0 then (Inr getDefaultGlobalIndices, c1)
               else (Inr results, cache_set later cacheKey results ttl c1)))"

text \<open>A payload whose second item is \<open>null\<close>.\<close>

definition partial_payload :: json where
  "partial_payload =
     JObj [(''data'', JObj [(''diff'',
       JArr [JObj [(''f2'', JNum 305012), (''f3'', JNum 52), (''f4'', JNum 1580)], JNull])])]"

lemma fetch_items_network: "fetch_items item_of NetworkFailure = Inl (Thrown ''fetch'')"
  by (simp add: fetch_items_def)

lemma fetch_items_body: "fetch_items item_of BadBody = Inl (Thrown ''json'')"
  by (simp add: fetch_items_def)

lemma market_resolves: "\<exists>xs. fst (fetchMarketIndicesFast ttl now later reply c) = Inr xs"
  by (cases "cache_get now ''market_indices'' c")
     (auto simp: fetchMarketIndicesFast_def split: option.splits sum.splits)

lemma ranking_resolves: "\<exists>xs. fst (fetchFundRankingFast ord pageSize now later reply c) = Inr xs"
  by (cases "cache_get now (''ranking_'' @ num_str ord @ ''_'' @ num_str pageSize) c")
     (auto simp: fetchFundRankingFast_def split: option.splits sum.splits)

lemma global_resolves: "\<exists>xs. fst (fetchGlobalIndices ttl coerce now later jreply c) = Inr xs"
  by (cases "cache_get now ''global_indices'' c")
     (auto simp: fetchGlobalIndices_def split: option.splits sum.splits jsonp_reply.splits)

lemma market_failure:
  assumes "fst (cache_get now ''market_indices'' c) = None"
    and "fetch_items market_item reply = Inl e"
  shows "fetchMarketIndicesFast ttl now later reply c = (Inr [], snd (cache_get now ''market_indices'' c))"
  using assms
  by (cases "cache_get now ''market_indices'' c") (simp add: fetchMarketIndicesFast_def)

lemma ranking_failure:
  assumes "fst (cache_get now (''ranking_'' @ num_str ord @ ''_'' @ num_str pageSize) c) = None"
    and "fetch_items ranking_item reply = Inl e"
  shows "fetchFundRankingFast ord pageSize now later reply c =
     (Inr [], snd (cache_get now (''ranking_'' @ num_str ord @ ''_'' @ num_str pageSize) c))"
  using assms
  by (cases "cache_get now (''ranking_'' @ num_str ord @ ''_'' @ num_str pageSize) c")
     (simp add: fetchFundRankingFast_def)

lemma global_failure:
  assumes "fst (cache_get now ''global_indices'' c) = None"
  shows "fetchGlobalIndices ttl coerce now later jreply c =
     (case jreply of
        JsonpCallback data \<Rightarrow>
          if snd (global_callback coerce data) = []
          then (Inr getDefaultGlobalIndices, snd (cache_get now ''global_indices'' c))
          else (Inr (snd (global_callback coerce data)),
                cache_set later ''global_indices'' (snd (global_callback coerce data)) ttl
                  (snd (cache_get now ''global_indices'' c)))
      | _ \<Rightarrow> (Inr getDefaultGlobalIndices, snd (cache_get now ''global_indices'' c)))"
  using assms
  by (cases "cache_get now ''global_indices'' c")
     (simp add: fetchGlobalIndices_def split: jsonp_reply.splits)

text \<open>
  C8 (amended). None of the three fetchers ever rejects. A failed request and a body
  that is not JSON are throws of the \<open>try\<close> block; whenever the block throws, on a
  cache miss, \<open>fetchMarketIndicesFast\<close> and \<open>fetchFundRankingFast\<close> resolve with the
  empty list and write nothing to the cache. \<open>fetchGlobalIndices\<close>, on a cache miss,
  resolves with the fallback list, and writes nothing to the cache, when setting up
  fails, on timeout, on a script error, and when the callback collected no entry;
  when the callback collected entries, it resolves with them and stores them under
  \<open>global_indices\<close> with the time to live \<open>ttl\<close>, also when the processing of the
  payload failed afterwards. In each case the cache is otherwise the one the lookup
  left.
\<close>

theorem fetchers_fail_soft:
  "(\<exists>xs. fst (fetchMarketIndicesFast ttl now later reply c) = Inr xs) \<and>
   (\<exists>xs. fst (fetchFundRankingFast ord pageSize now later reply c) = Inr xs) \<and>
   (\<exists>xs. fst (fetchGlobalIndices ttl coerce now later jreply c) = Inr xs) \<and>
   (\<exists>e. fetch_items item_of NetworkFailure = Inl e) \<and>
   (\<exists>e. fetch_items item_of BadBody = Inl e) \<and>
   (fst (cache_get now ''market_indices'' c) = None \<and>
    (\<exists>e. fetch_items market_item reply = Inl e) \<longrightarrow>
      fetchMarketIndicesFast ttl now later reply c =
        (Inr [], snd (cache_get now ''market_indices'' c))) \<and>
   (fst (cache_get now (''ranking_'' @ num_str ord @ ''_'' @ num_str pageSize) c) = None \<and>
    (\<exists>e. fetch_items ranking_item reply = Inl e) \<longrightarrow>
      fetchFundRankingFast ord pageSize now later reply c =
        (Inr [], snd (cache_get now (''ranking_'' @ num_str ord @ ''_'' @ num_str pageSize) c))) \<and>
   (fst (cache_get now ''global_indices'' c) = None \<longrightarrow>
      fetchGlobalIndices ttl coerce now later jreply c =
        (case jreply of
           JsonpCallback data \<Rightarrow>
             if snd (global_callback coerce data) = []
             then (Inr getDefaultGlobalIndices, snd (cache_get now ''global_indices'' c))
             else (Inr (snd (global_callback coerce data)),
                   cache_set later ''global_indices'' (snd (global_callback coerce data)) ttl
                     (snd (cache_get now ''global_indices'' c)))
         | _ \<Rightarrow> (Inr getDefaultGlobalIndices, snd (cache_get now ''global_indices'' c))))"
proof -
  have market: "fst (cache_get now ''market_indices'' c) = None \<and>
      (\<exists>e. fetch_items market_item reply = Inl e) \<longrightarrow>
      fetchMarketIndicesFast ttl now later reply c =
        (Inr [], snd (cache_get now ''market_indices'' c))"
    using market_failure [of now c reply _ ttl later] by blast
  have ranking: "fst (cache_get now (''ranking_'' @ num_str ord @ ''_'' @ num_str pageSize) c) = None \<and>
      (\<exists>e. fetch_items ranking_item reply = Inl e) \<longrightarrow>
      fetchFundRankingFast ord pageSize now later reply c =
        (Inr [], snd (cache_get now (''ranking_'' @ num_str ord @ ''_'' @ num_str pageSize) c))"
    using ranking_failure [of now ord pageSize c reply _ later] by blast
  show ?thesis
    using market_resolves [of ttl now later reply c]
      ranking_resolves [of ord pageSize now later reply c]
      global_resolves [of ttl coerce now later jreply c]
      market ranking
      global_failure [of now c ttl coerce later jreply]
    by (simp add: fetch_items_network fetch_items_body)
qed

text \<open>
  C8 as stated fails for \<open>fetchGlobalIndices\<close>: on a payload whose second item is
  \<open>null\<close> the processing throws a \<open>TypeError\<close> after the first entry was pushed,
  and the promise resolves with that one entry, not with the fallback list; the
  entry is in the cache afterwards.
\<close>

theorem global_partial_counterexample:
  "fst (global_callback (\<lambda>v. None) partial_payload) = Some (Thrown ''TypeError'') \<and>
   fst (fetchGlobalIndices 60000 (\<lambda>v. None) 0 100 (JsonpCallback partial_payload) Map.empty) =
     Inr [JObj [(''name'', JStr [CHR 0xE4, CHR 0xB8, CHR 0x8A, CHR 0xE8, CHR 0xAF, CHR 0x81,
                                 CHR 0xE6, CHR 0x8C, CHR 0x87, CHR 0xE6, CHR 0x95, CHR 0xB0]),
                (''code'', JStr ''1.000001''), (''price'', JNum (76253 / 25)),
                (''change'', JNum (79 / 5)), (''changePercent'', JNum (13 / 25)),
                (''region'', JStr ''cn'')]] \<and>
   fst (fetchGlobalIndices 60000 (\<lambda>v. None) 0 100 (JsonpCallback partial_payload) Map.empty) \<noteq>
     Inr getDefaultGlobalIndices \<and>
   snd (fetchGlobalIndices 60000 (\<lambda>v. None) 0 100 (JsonpCallback partial_payload) Map.empty)
       ''global_indices'' =
     Some ([JObj [(''name'', JStr [CHR 0xE4, CHR 0xB8, CHR 0x8A, CHR 0xE8, CHR 0xAF, CHR 0x81,
                                   CHR 0xE6, CHR 0x8C, CHR 0x87, CHR 0xE6, CHR 0x95, CHR 0xB0]),
                  (''code'', JStr ''1.000001''), (''price'', JNum (76253 / 25)),
                  (''change'', JNum (79 / 5)), (''changePercent'', JNum (13 / 25)),
                  (''region'', JStr ''cn'')]], 60100)"
  by code_simp

theorem fetchers_fail_soft_witness:
  "fetchMarketIndicesFast 60000 0 100 BadBody Map.empty = (Inr [], Map.empty) \<and>
   fetchFundRankingFast 1 30 0 100 BadBody Map.empty = (Inr [], Map.empty) \<and>
   fetchGlobalIndices 60000 (\<lambda>v. None) 0 100 JsonpTimeout Map.empty =
     (Inr getDefaultGlobalIndices, Map.empty)"
proof -
  have miss: "cache_get 0 ''market_indices'' (Map.empty :: json list cache) = (None, Map.empty)"
    "cache_get 0 (''ranking_'' @ num_str 1 @ ''_'' @ num_str 30) (Map.empty :: json list cache) =
       (None, Map.empty)"
    "cache_get 0 ''global_indices'' (Map.empty :: json list cache) = (None, Map.empty)"
    by (simp_all add: cache_get_def)
  have fail: "\<exists>e. fetch_items market_item BadBody = Inl e"
    "\<exists>e. fetch_items ranking_item BadBody = Inl e"
    by (simp_all add: fetch_items_def)
  from fetchers_fail_soft [where now = 0 and c = Map.empty and reply = BadBody and ord = 1
      and pageSize = 30 and jreply = JsonpTimeout and ttl = 60000 and later = 100
      and coerce = "\<lambda>v. None"] miss fail
  show ?thesis
    by simp
qed

end
